theory Spec2Isabelle
  imports Main "HOL-Library.Word"
begin

unbundle bit_operations_syntax

section \<open>Machine state (emulator/chip8.go)\<close>

text \<open>
  The Go struct \<open>Chip8\<close> holds fixed-size arrays and scalar registers.  A fixed-size
  array \<open>[N]T\<close> is modelled as a total function from the index to the cell; every access
  whose index is not bounded by its type or by a mask is guarded by an explicit comparison
  with \<open>N\<close>, and yields the run-time panic of Go when the guard fails.  The fields carry
  the receiver prefix \<open>c_\<close> (Go writes \<open>c.mem\<close>, \<open>c.pc\<close>, ...), because one-letter
  constants such as \<open>i\<close> and \<open>v\<close> would capture variables.
\<close>

type_synonym uint8 = "8 word"
type_synonym uint16 = "16 word"
type_synonym uint32 = "32 word"

record chip8 =
  c_mem :: "nat \<Rightarrow> uint8"
  c_pc :: uint16
  c_v :: "nat \<Rightarrow> uint8"
  c_i :: uint16
  c_dt :: uint8
  c_st :: uint8
  c_sp :: uint8
  c_stack :: "nat \<Rightarrow> uint16"
  c_keys :: "nat \<Rightarrow> uint8"
  c_disp :: "nat \<Rightarrow> uint8"
  c_ophistory :: "nat \<Rightarrow> string"
  c_ophistoryIndex :: int

text \<open>
  How a call can end without returning: \<open>log.Fatalf\<close> on an unimplemented instruction
  (the process exits), or a run-time panic of Go on an index or a slice bound out of
  range.
\<close>

datatype error = NotImplemented uint16 | IndexOutOfRange | SliceBoundsOutOfRange

definition Chip8DisplayW :: nat where "Chip8DisplayW = 64"
definition Chip8DisplayH :: nat where "Chip8DisplayH = 32"
definition CharacterSpritesOffset :: nat where "CharacterSpritesOffset = 0x100"
definition CharacterSpriteBytes :: nat where "CharacterSpriteBytes = 5"
definition ProgramOffset :: nat where "ProgramOffset = 0x200"
definition OpHistoryNum :: nat where "OpHistoryNum = 16"

definition characterSprites :: "uint8 list" where
  "characterSprites =
    [0xF0, 0x90, 0x90, 0x90, 0xF0,
     0x20, 0x60, 0x20, 0x20, 0x70,
     0xF0, 0x10, 0xF0, 0x80, 0xF0,
     0xF0, 0x10, 0xF0, 0x10, 0xF0,
     0x90, 0x90, 0xF0, 0x10, 0x10,
     0xF0, 0x80, 0xF0, 0x10, 0xF0,
     0xF0, 0x80, 0xF0, 0x90, 0xF0,
     0xF0, 0x10, 0x20, 0x40, 0x40,
     0xF0, 0x90, 0xF0, 0x90, 0xF0,
     0xF0, 0x90, 0xF0, 0x10, 0xF0,
     0xF0, 0x90, 0xF0, 0x90, 0x90,
     0xE0, 0x90, 0xE0, 0x90, 0xE0,
     0xF0, 0x80, 0x80, 0x80, 0xF0,
     0xE0, 0x90, 0x90, 0x90, 0xE0,
     0xF0, 0x80, 0xF0, 0x80, 0xF0,
     0xF0, 0x80, 0xF0, 0x80, 0x80]"

text \<open>
  Go's builtin \<open>copy(dst[dlo:dhi], src[slo:shi])\<close> on two different arrays: it copies
  \<open>min (dhi - dlo) (shi - slo)\<close> cells and leaves the rest of \<open>dst\<close> as it is.
\<close>

definition copy_slice ::
  "(nat \<Rightarrow> 'a) \<Rightarrow> nat \<Rightarrow> nat \<Rightarrow> (nat \<Rightarrow> 'a) \<Rightarrow> nat \<Rightarrow> nat \<Rightarrow> (nat \<Rightarrow> 'a)" where
  "copy_slice dst dlo dhi src slo shi =
    (\<lambda>a. if dlo \<le> a \<and> a - dlo < min (dhi - dlo) (shi - slo)
         then src (slo + (a - dlo)) else dst a)"

text \<open>The zero value \<open>&Chip8{}\<close>.\<close>

definition zeroChip8 :: chip8 where
  "zeroChip8 =
    \<lparr>c_mem = (\<lambda>_. 0), c_pc = 0, c_v = (\<lambda>_. 0), c_i = 0, c_dt = 0, c_st = 0, c_sp = 0,
     c_stack = (\<lambda>_. 0), c_keys = (\<lambda>_. 0), c_disp = (\<lambda>_. 0),
     c_ophistory = (\<lambda>_. []), c_ophistoryIndex = 0\<rparr>"

definition newChip8 :: "uint8 list \<Rightarrow> chip8" where
  "newChip8 b =
    (let c0 = zeroChip8\<lparr>c_pc := of_nat ProgramOffset, c_sp := 0x0f\<rparr>;
         c1 = c0\<lparr>c_mem := copy_slice (c_mem c0) ProgramOffset 4096 (\<lambda>k. b ! k) 0 (length b)\<rparr>;
         c2 = c1\<lparr>c_mem := copy_slice (c_mem c1) CharacterSpritesOffset 4096
                              (\<lambda>k. characterSprites ! k) 0 (length characterSprites)\<rparr>
     in c2)"

definition decrementTimer :: "chip8 \<Rightarrow> chip8" where
  "decrementTimer c =
    (let c1 = (if c_dt c > 0 then c\<lparr>c_dt := c_dt c - 1\<rparr> else c);
         c2 = (if c_st c1 > 0 then c1\<lparr>c_st := c_st c1 - 1\<rparr> else c1)
     in c2)"

definition fetchOpcode :: "chip8 \<Rightarrow> error + uint16 \<times> chip8" where
  "fetchOpcode c =
    (if unat (c_pc c) \<ge> 4096 \<or> unat (c_pc c + 1) \<ge> 4096 then Inl IndexOutOfRange
     else Inr (push_bit 8 (ucast (c_mem c (unat (c_pc c))) :: uint16)
                 OR ucast (c_mem c (unat (c_pc c + 1))),
               c\<lparr>c_pc := c_pc c + 2\<rparr>))"

definition updateCarryFlag :: "bool \<Rightarrow> chip8 \<Rightarrow> chip8" where
  "updateCarryFlag b c = (if b then c\<lparr>c_v := (c_v c)(0xf := 1)\<rparr> else c\<lparr>c_v := (c_v c)(0xf := 0)\<rparr>)"

definition pushStack :: "uint16 \<Rightarrow> chip8 \<Rightarrow> error + chip8" where
  "pushStack w c =
    (if unat (c_sp c) \<ge> 16 then Inl IndexOutOfRange
     else Inr (c\<lparr>c_stack := (c_stack c)(unat (c_sp c) := w), c_sp := c_sp c - 1\<rparr>))"

definition popStack :: "chip8 \<Rightarrow> error + uint16 \<times> chip8" where
  "popStack c =
    (let c1 = c\<lparr>c_sp := c_sp c + 1\<rparr>
     in if unat (c_sp c1) \<ge> 16 then Inl IndexOutOfRange
        else Inr (c_stack c1 (unat (c_sp c1)), c1))"

text \<open>
  \<open>draw\<close>: the body of the inner loop, then the two counting loops.  The counters are
  \<open>uint8\<close> in Go and stay below 8 and below \<open>n \<le> 255\<close>, so they never wrap and are
  natural numbers here.  \<open>sm\<close> is the slice \<open>c.mem[c.i:]\<close>, of length \<open>4096 - base\<close>;
  \<open>sm[iy]\<close> is read only for a pixel inside the screen.
\<close>

definition draw_pixel ::
  "uint8 \<Rightarrow> uint8 \<Rightarrow> (nat \<Rightarrow> uint8) \<Rightarrow> nat \<Rightarrow> nat \<Rightarrow> nat \<Rightarrow>
   (nat \<Rightarrow> uint8) \<times> bool \<Rightarrow> error + (nat \<Rightarrow> uint8) \<times> bool" where
  "draw_pixel x y m base iy ix acc =
    (let tx = unat x + ix; ty = unat y + iy
     in if tx \<ge> Chip8DisplayW \<or> ty \<ge> Chip8DisplayH then Inr acc
        else if base + iy \<ge> 4096 then Inl IndexOutOfRange
        else let s = fst acc (ty * Chip8DisplayW + tx);
                 d = drop_bit (7 - ix) (m (base + iy)) AND 0x01
             in Inr ((fst acc)(ty * Chip8DisplayW + tx := s XOR d),
                     (if s = 1 \<and> d = 1 then True else snd acc)))"

function draw_cols ::
  "uint8 \<Rightarrow> uint8 \<Rightarrow> (nat \<Rightarrow> uint8) \<Rightarrow> nat \<Rightarrow> nat \<Rightarrow> nat \<Rightarrow>
   (nat \<Rightarrow> uint8) \<times> bool \<Rightarrow> error + (nat \<Rightarrow> uint8) \<times> bool" where
  "draw_cols x y m base iy ix acc =
    (if ix < 8
     then (case draw_pixel x y m base iy ix acc of
             Inl e \<Rightarrow> Inl e
           | Inr acc' \<Rightarrow> draw_cols x y m base iy (ix + 1) acc')
     else Inr acc)"
  by pat_completeness auto
termination
  by (relation "measure (\<lambda>(x, y, m, base, iy, ix, acc). 8 - ix)") auto

function draw_rows ::
  "uint8 \<Rightarrow> uint8 \<Rightarrow> (nat \<Rightarrow> uint8) \<Rightarrow> nat \<Rightarrow> nat \<Rightarrow> nat \<Rightarrow>
   (nat \<Rightarrow> uint8) \<times> bool \<Rightarrow> error + (nat \<Rightarrow> uint8) \<times> bool" where
  "draw_rows x y m base n iy acc =
    (if iy < n
     then (case draw_cols x y m base iy 0 acc of
             Inl e \<Rightarrow> Inl e
           | Inr acc' \<Rightarrow> draw_rows x y m base n (iy + 1) acc')
     else Inr acc)"
  by pat_completeness auto
termination
  by (relation "measure (\<lambda>(x, y, m, base, n, iy, acc). n - iy)") auto

declare draw_cols.simps [simp del] draw_rows.simps [simp del]

definition draw :: "uint8 \<Rightarrow> uint8 \<Rightarrow> uint8 \<Rightarrow> chip8 \<Rightarrow> error + bool \<times> chip8" where
  "draw x y n c =
    (if unat (c_i c) > 4096 then Inl SliceBoundsOutOfRange
     else case draw_rows x y (c_mem c) (unat (c_i c)) (unat n) 0 (c_disp c, False) of
            Inl e \<Rightarrow> Inl e
          | Inr acc \<Rightarrow> Inr (snd acc, c\<lparr>c_disp := fst acc\<rparr>))"

text \<open>\<open>pressedAnyKey\<close>: the \<open>range\<close> loop over the 16 keys, from index \<open>k\<close> on.\<close>

function pressedAnyKey_from :: "(nat \<Rightarrow> uint8) \<Rightarrow> nat \<Rightarrow> uint8" where
  "pressedAnyKey_from ks k =
    (if k < 16 then (if ks k = 1 then of_nat k else pressedAnyKey_from ks (k + 1))
     else 0xff)"
  by pat_completeness auto
termination
  by (relation "measure (\<lambda>(ks, k). 16 - k)") auto

declare pressedAnyKey_from.simps [simp del]

definition pressedAnyKey :: "chip8 \<Rightarrow> uint8" where
  "pressedAnyKey c = pressedAnyKey_from (c_keys c) 0"

section \<open>Instruction trace formatting (fmt.Sprintf)\<close>

definition hexdigit :: "nat \<Rightarrow> char" where
  "hexdigit d = ''0123456789ABCDEF'' ! d"

fun digits :: "nat \<Rightarrow> nat \<Rightarrow> nat \<Rightarrow> string" where
  "digits base 0 k = []"
| "digits base (Suc fuel) k =
    (if k < base then [hexdigit k] else digits base fuel (k div base) @ [hexdigit (k mod base)])"

text \<open>
  \<open>%0wX\<close> on an unsigned value of at most 16 bits: upper-case hexadecimal, padded with
  zeros to width \<open>w\<close>; \<open>%d\<close> on a \<open>uint8\<close>.  Four hexadecimal and three decimal digits
  always suffice, which is the fuel given to \<open>digits\<close>.
\<close>

definition fmtX :: "nat \<Rightarrow> nat \<Rightarrow> string" where
  "fmtX w k = (let s = digits 16 4 k in replicate (w - length s) (CHR ''0'') @ s)"

definition fmtd :: "nat \<Rightarrow> string" where
  "fmtd k = digits 10 3 k"

section \<open>Decode and dispatch (emulator/opcodes.go)\<close>

definition op_h :: "uint16 \<Rightarrow> uint16" where "op_h op = op AND 0xF000"
definition op_nnn :: "uint16 \<Rightarrow> uint16" where "op_nnn op = op AND 0x0FFF"
definition op_nn :: "uint16 \<Rightarrow> uint8" where "op_nn op = ucast (op_nnn op AND 0xff)"
definition op_x :: "uint16 \<Rightarrow> uint8" where "op_x op = ucast (drop_bit 8 (op_nnn op) AND 0xf)"
definition op_y :: "uint16 \<Rightarrow> uint8" where "op_y op = ucast (drop_bit 4 (op_nnn op) AND 0xf)"
definition op_n :: "uint16 \<Rightarrow> uint8" where "op_n op = op_nn op AND 0x0f"

definition set_v :: "uint8 \<Rightarrow> uint8 \<Rightarrow> chip8 \<Rightarrow> chip8" where
  "set_v x w c = c\<lparr>c_v := (c_v c)(unat x := w)\<rparr>"

definition get_v :: "chip8 \<Rightarrow> uint8 \<Rightarrow> uint8" where
  "get_v c x = c_v c (unat x)"

definition skip_if :: "bool \<Rightarrow> chip8 \<Rightarrow> chip8" where
  "skip_if b c = (if b then c\<lparr>c_pc := c_pc c + 2\<rparr> else c)"

text \<open>Family \<open>0x0000\<close>: the inner switch on the whole opcode, with its fatal default.\<close>

definition exec_0 :: "uint16 \<Rightarrow> chip8 \<Rightarrow> error + chip8 \<times> string" where
  "exec_0 op c =
    (if op = 0x00E0 then
       Inr (c\<lparr>c_disp := (\<lambda>p. if p < Chip8DisplayW * Chip8DisplayH then 0 else c_disp c p)\<rparr>,
            ''CLS  '')
     else if op = 0x00EE then
       (case popStack c of
          Inl e \<Rightarrow> Inl e
        | Inr (r, c1) \<Rightarrow> Inr (c1\<lparr>c_pc := r\<rparr>, ''RET  ''))
     else Inl (NotImplemented op))"

text \<open>Family \<open>0x8000\<close>: the inner switch on \<open>nnn & 0xf\<close>; it has no default case.\<close>

definition exec_8 :: "uint16 \<Rightarrow> chip8 \<Rightarrow> error + chip8 \<times> string" where
  "exec_8 op c =
    (let x = op_x op; y = op_y op; sub = op_nnn op AND 0xf
     in if sub = 0 then
          Inr (set_v x (get_v c y) c, ''LD   V'' @ fmtX 0 (unat x) @ '',V'' @ fmtX 0 (unat y))
        else if sub = 1 then
          Inr (set_v x (get_v c x OR get_v c y) c,
               ''OR   V'' @ fmtX 0 (unat x) @ '',V'' @ fmtX 0 (unat y))
        else if sub = 2 then
          Inr (set_v x (get_v c x AND get_v c y) c,
               ''AND  V'' @ fmtX 0 (unat x) @ '',V'' @ fmtX 0 (unat y))
        else if sub = 3 then
          Inr (set_v x (get_v c x XOR get_v c y) c,
               ''XOR  V'' @ fmtX 0 (unat x) @ '',V'' @ fmtX 0 (unat y))
        else if sub = 4 then
          (let carried = ((ucast (get_v c x) :: uint16) + ucast (get_v c y) > 0xff);
               c1 = set_v x (get_v c x + get_v c y) c;
               c2 = updateCarryFlag carried c1
           in Inr (c2, ''ADD  V'' @ fmtX 0 (unat x) @ '',V'' @ fmtX 0 (unat y)))
        else if sub = 5 then
          (let borrowed = (get_v c x < get_v c y);
               c1 = set_v x (get_v c x - get_v c y) c;
               c2 = updateCarryFlag (\<not> borrowed) c1
           in Inr (c2, ''SUB  V'' @ fmtX 0 (unat x) @ '',V'' @ fmtX 0 (unat y)))
        else if sub = 6 then
          (let c1 = updateCarryFlag (get_v c x AND 0x01 = 1) c;
               c2 = set_v x (drop_bit 1 (get_v c1 x)) c1
           in Inr (c2, ''SHR  V'' @ fmtX 0 (unat x)))
        else if sub = 7 then
          (let borrowed = (get_v c y < get_v c x);
               c1 = set_v x (get_v c y - get_v c x) c;
               c2 = updateCarryFlag (\<not> borrowed) c1
           in Inr (c2, ''SUBN V'' @ fmtX 0 (unat x) @ '',V'' @ fmtX 0 (unat y)))
        else if sub = 0xE then
          (let c1 = updateCarryFlag (drop_bit 7 (get_v c x) = 1) c;
               c2 = set_v x (push_bit 1 (get_v c1 x)) c1
           in Inr (c2, ''SHL  V'' @ fmtX 0 (unat x)))
        else Inr (c, []))"

text \<open>
  Family \<open>0xE000\<close>: the inner switch on \<open>nn\<close>, without default.  \<open>c.keys[c.v[x]]\<close>
  indexes the 16 keys with a full byte.
\<close>

definition exec_E :: "uint16 \<Rightarrow> chip8 \<Rightarrow> error + chip8 \<times> string" where
  "exec_E op c =
    (let x = op_x op; nn = op_nn op
     in if nn = 0x9E then
          (if unat (get_v c x) \<ge> 16 then Inl IndexOutOfRange
           else Inr (skip_if (c_keys c (unat (get_v c x)) = 1) c, ''SKP  V'' @ fmtX 0 (unat x)))
        else if nn = 0xA1 then
          (if unat (get_v c x) \<ge> 16 then Inl IndexOutOfRange
           else Inr (skip_if (c_keys c (unat (get_v c x)) = 0) c, ''SKNP V'' @ fmtX 0 (unat x)))
        else Inr (c, []))"

text \<open>Writing one byte of memory through a 16-bit address.\<close>

definition mem_store :: "uint16 \<Rightarrow> uint8 \<Rightarrow> chip8 \<Rightarrow> error + chip8" where
  "mem_store a w c =
    (if unat a \<ge> 4096 then Inl IndexOutOfRange
     else Inr (c\<lparr>c_mem := (c_mem c)(unat a := w)\<rparr>))"

text \<open>Family \<open>0xF000\<close>: the inner switch on \<open>nn\<close>, without default.\<close>

definition exec_F :: "uint16 \<Rightarrow> chip8 \<Rightarrow> error + chip8 \<times> string" where
  "exec_F op c =
    (let x = op_x op; nn = op_nn op
     in if nn = 0x07 then
          Inr (set_v x (c_dt c) c, ''LD   V'' @ fmtX 0 (unat x) @ '',DT'')
        else if nn = 0x0A then
          Inr (if pressedAnyKey c = 0xff then c\<lparr>c_pc := c_pc c - 2\<rparr>
               else set_v x (pressedAnyKey c) c,
               ''LD   V'' @ fmtX 0 (unat x) @ '',K'')
        else if nn = 0x15 then
          Inr (c\<lparr>c_dt := get_v c x\<rparr>, ''LD   DT,V'' @ fmtX 0 (unat x))
        else if nn = 0x18 then
          Inr (c\<lparr>c_st := get_v c x\<rparr>, ''LD   ST,V'' @ fmtX 0 (unat x))
        else if nn = 0x1E then
          Inr (c\<lparr>c_i := c_i c + ucast (get_v c x)\<rparr>, ''ADD  I,V'' @ fmtX 0 (unat x))
        else if nn = 0x29 then
          Inr (c\<lparr>c_i := of_nat CharacterSpritesOffset
                          + ucast (get_v c x) * of_nat CharacterSpriteBytes\<rparr>,
               ''LD   F,V'' @ fmtX 0 (unat x))
        else if nn = 0x33 then
          (case mem_store (c_i c + 0) (get_v c x div 100) c of
             Inl e \<Rightarrow> Inl e
           | Inr c1 \<Rightarrow>
             (case mem_store (c_i c1 + 1) ((get_v c1 x mod 100) div 10) c1 of
                Inl e \<Rightarrow> Inl e
              | Inr c2 \<Rightarrow>
                (case mem_store (c_i c2 + 2) (get_v c2 x mod 10) c2 of
                   Inl e \<Rightarrow> Inl e
                 | Inr c3 \<Rightarrow> Inr (c3, ''LD   B,V'' @ fmtX 0 (unat x)))))
        else if nn = 0x55 then
          (if unat (c_i c) > 4096 then Inl SliceBoundsOutOfRange
           else Inr (c\<lparr>c_mem := copy_slice (c_mem c) (unat (c_i c)) 4096
                                   (c_v c) 0 (unat (x + 1))\<rparr>,
                     ''LD   [I],V'' @ fmtX 0 (unat x)))
        else if nn = 0x65 then
          (if unat (c_i c) > 4096 then Inl SliceBoundsOutOfRange
           else Inr (c\<lparr>c_v := copy_slice (c_v c) 0 (unat (x + 1))
                                 (c_mem c) (unat (c_i c)) 4096\<rparr>,
                     ''LD   V'' @ fmtX 0 (unat x) @ '',[I]''))
        else Inr (c, []))"

text \<open>
  The outer switch on \<open>h\<close>.  Each case yields the new state and the mnemonic.  The
  pseudo-random word that \<open>rand.Uint32()\<close> returns is the parameter \<open>rnd\<close>.
\<close>

definition exec_case :: "uint32 \<Rightarrow> uint16 \<Rightarrow> chip8 \<Rightarrow> error + chip8 \<times> string" where
  "exec_case rnd op c =
    (let h = op_h op; nnn = op_nnn op; nn = op_nn op; x = op_x op; y = op_y op; n = op_n op
     in if h = 0x0000 then exec_0 op c
        else if h = 0x1000 then
          Inr (c\<lparr>c_pc := nnn\<rparr>, ''GOTO '' @ fmtX 3 (unat nnn))
        else if h = 0x2000 then
          (case pushStack (c_pc c) c of
             Inl e \<Rightarrow> Inl e
           | Inr c1 \<Rightarrow> Inr (c1\<lparr>c_pc := nnn\<rparr>, ''CALL '' @ fmtX 3 (unat nnn)))
        else if h = 0x3000 then
          Inr (skip_if (get_v c x = nn) c,
               ''SE   V'' @ fmtX 0 (unat x) @ '',#'' @ fmtX 2 (unat nn))
        else if h = 0x4000 then
          Inr (skip_if (get_v c x \<noteq> nn) c,
               ''SNE  V'' @ fmtX 0 (unat x) @ '',#'' @ fmtX 2 (unat nn))
        else if h = 0x5000 then
          Inr (skip_if (get_v c x = get_v c y) c,
               ''SE   V'' @ fmtX 0 (unat x) @ '',V'' @ fmtX 0 (unat y))
        else if h = 0x6000 then
          Inr (set_v x nn c, ''LD   V'' @ fmtX 0 (unat x) @ '',#'' @ fmtX 2 (unat nn))
        else if h = 0x7000 then
          Inr (set_v x (get_v c x + nn) c,
               ''ADD  V'' @ fmtX 0 (unat x) @ '',#'' @ fmtX 2 (unat nn))
        else if h = 0x8000 then exec_8 op c
        else if h = 0x9000 then
          Inr (skip_if (get_v c x \<noteq> get_v c y) c,
               ''SNE  V'' @ fmtX 0 (unat x) @ '',V'' @ fmtX 0 (unat y))
        else if h = 0xA000 then
          Inr (c\<lparr>c_i := nnn\<rparr>, ''LD   I,#'' @ fmtX 4 (unat nnn))
        else if h = 0xB000 then
          Inr (c\<lparr>c_pc := ucast (c_v c 0) + nnn\<rparr>, ''JP   V0,#'' @ fmtX 4 (unat nnn))
        else if h = 0xC000 then
          Inr (set_v x (ucast (rnd AND ucast nn)) c,
               ''RND  V'' @ fmtX 0 (unat x) @ '',#'' @ fmtX 2 (unat nn))
        else if h = 0xD000 then
          (case draw (get_v c x) (get_v c y) n c of
             Inl e \<Rightarrow> Inl e
           | Inr (flipped, c1) \<Rightarrow>
               Inr (updateCarryFlag flipped c1,
                    ''DRW  V'' @ fmtX 0 (unat x) @ '',V'' @ fmtX 0 (unat y) @ '','' @ fmtd (unat n)))
        else if h = 0xE000 then exec_E op c
        else if h = 0xF000 then exec_F op c
        else Inr (c, []))"

text \<open>
  The last two statements of \<open>execOpcode\<close>: the trace line is stored at the write
  position, which then advances modulo the capacity.  The position is a Go \<open>int\<close>.
\<close>

definition put_history :: "string \<Rightarrow> chip8 \<Rightarrow> error + chip8" where
  "put_history line c =
    (if c_ophistoryIndex c < 0 \<or> c_ophistoryIndex c \<ge> int OpHistoryNum then Inl IndexOutOfRange
     else Inr (c\<lparr>c_ophistory := (c_ophistory c)(nat (c_ophistoryIndex c) := line),
                c_ophistoryIndex := (c_ophistoryIndex c + 1) mod int OpHistoryNum\<rparr>))"

definition execOpcode :: "uint32 \<Rightarrow> uint16 \<Rightarrow> chip8 \<Rightarrow> error + chip8" where
  "execOpcode rnd op c =
    (let pc = c_pc c - 2
     in case exec_case rnd op c of
          Inl e \<Rightarrow> Inl e
        | Inr (c1, mnemonic) \<Rightarrow>
            put_history (fmtX 3 (unat pc) @ ''-'' @ fmtX 4 (unat op) @ '' '' @ mnemonic) c1)"

definition step :: "uint32 \<Rightarrow> chip8 \<Rightarrow> error + chip8" where
  "step rnd c =
    (case fetchOpcode c of
       Inl e \<Rightarrow> Inl e
     | Inr (op, c1) \<Rightarrow> execOpcode rnd op c1)"

text \<open>
  The write position of the trace is private to the engine: \<open>newChip8\<close> starts it at 0
  and \<open>execOpcode\<close> keeps it below the capacity (lemmas \<open>newChip8_history_ok\<close> and
  \<open>execOpcode_ok\<close> below), so every state the engine reaches satisfies \<open>history_ok\<close>.
  The statements about \<open>execOpcode\<close> assume it; without it the store into the trace is
  the index panic.
\<close>

definition history_ok :: "chip8 \<Rightarrow> bool" where
  "history_ok c = (0 \<le> c_ophistoryIndex c \<and> c_ophistoryIndex c < int OpHistoryNum)"

text \<open>
  The opcodes of the families \<open>0x8000\<close>, \<open>0xE000\<close> and \<open>0xF000\<close> whose sub-op bits
  match no case label of the inner switch of their family.
\<close>

definition unrecognized_subop :: "uint16 \<Rightarrow> bool" where
  "unrecognized_subop op =
    (op_h op = 0x8000 \<and> op_nnn op AND 0xf \<notin> {0, 1, 2, 3, 4, 5, 6, 7, 0xE}
     \<or> op_h op = 0xE000 \<and> op_nn op \<notin> {0x9E, 0xA1}
     \<or> op_h op = 0xF000 \<and> op_nn op \<notin> {0x07, 0x0A, 0x15, 0x18, 0x1E, 0x29, 0x33, 0x55, 0x65})"

section \<open>Closed form of the draw loops\<close>

text \<open>
  The source bit that \<open>draw\<close> reads for row \<open>row\<close> and column \<open>col\<close> of the sprite at
  \<open>base\<close>, and what the two loops amount to: the framebuffer after the columns from \<open>ix\<close>
  of one row, and after the rows from \<open>iy\<close>; a cell \<open>p\<close> is the pixel at column
  \<open>p mod 64\<close> of line \<open>p div 64\<close>.
\<close>

definition sprite_bit :: "(nat \<Rightarrow> uint8) \<Rightarrow> nat \<Rightarrow> nat \<Rightarrow> nat \<Rightarrow> uint8" where
  "sprite_bit m base row col = drop_bit (7 - col) (m (base + row)) AND 0x01"

definition cols_disp ::
  "uint8 \<Rightarrow> uint8 \<Rightarrow> (nat \<Rightarrow> uint8) \<Rightarrow> nat \<Rightarrow> nat \<Rightarrow> nat \<Rightarrow> (nat \<Rightarrow> uint8) \<Rightarrow> (nat \<Rightarrow> uint8)" where
  "cols_disp x y m base iy ix d =
    (\<lambda>p. if unat y + iy < 32 \<and> p div 64 = unat y + iy \<and> unat x + ix \<le> p mod 64 \<and> p mod 64 < unat x + 8
         then d p XOR sprite_bit m base iy (p mod 64 - unat x) else d p)"

definition cols_flip ::
  "uint8 \<Rightarrow> uint8 \<Rightarrow> (nat \<Rightarrow> uint8) \<Rightarrow> nat \<Rightarrow> nat \<Rightarrow> nat \<Rightarrow> (nat \<Rightarrow> uint8) \<Rightarrow> bool" where
  "cols_flip x y m base iy ix d =
    (\<exists>col. ix \<le> col \<and> col < 8 \<and> unat x + col < 64 \<and> unat y + iy < 32
        \<and> d ((unat y + iy) * 64 + (unat x + col)) = 1 \<and> sprite_bit m base iy col = 1)"

definition rows_disp ::
  "uint8 \<Rightarrow> uint8 \<Rightarrow> (nat \<Rightarrow> uint8) \<Rightarrow> nat \<Rightarrow> nat \<Rightarrow> nat \<Rightarrow> (nat \<Rightarrow> uint8) \<Rightarrow> (nat \<Rightarrow> uint8)" where
  "rows_disp x y m base n iy d =
    (\<lambda>p. if unat y + iy \<le> p div 64 \<and> p div 64 < unat y + n \<and> p div 64 < 32
            \<and> unat x \<le> p mod 64 \<and> p mod 64 < unat x + 8
         then d p XOR sprite_bit m base (p div 64 - unat y) (p mod 64 - unat x) else d p)"

definition rows_flip ::
  "uint8 \<Rightarrow> uint8 \<Rightarrow> (nat \<Rightarrow> uint8) \<Rightarrow> nat \<Rightarrow> nat \<Rightarrow> nat \<Rightarrow> (nat \<Rightarrow> uint8) \<Rightarrow> bool" where
  "rows_flip x y m base n iy d =
    (\<exists>row col. iy \<le> row \<and> row < n \<and> col < 8 \<and> unat x + col < 64 \<and> unat y + row < 32
        \<and> d ((unat y + row) * 64 + (unat x + col)) = 1 \<and> sprite_bit m base row col = 1)"

section \<open>Auxiliary facts\<close>

lemmas run_defs =
  step_def fetchOpcode_def newChip8_def zeroChip8_def Let_def copy_slice_def
  ProgramOffset_def CharacterSpritesOffset_def CharacterSpriteBytes_def characterSprites_def
  Chip8DisplayW_def Chip8DisplayH_def
  execOpcode_def exec_case_def exec_0_def exec_8_def exec_E_def exec_F_def
  op_h_def op_nnn_def op_x_def op_y_def op_nn_def op_n_def
  set_v_def get_v_def skip_if_def updateCarryFlag_def put_history_def OpHistoryNum_def
  pushStack_def popStack_def mem_store_def

lemma unat8_lt: "unat (w::uint8) < 256"
  using unsigned_less[of w, where 'a = nat] by simp

lemma unat_ucast_8_16: "unat (ucast (w::uint8) :: uint16) = unat w"
  using unat8_lt[of w] by (simp add: unsigned_ucast_eq take_bit_eq_mod)

lemma unat_ucast_16_8: "unat (w::uint16) < 256 \<Longrightarrow> unat (ucast w :: uint8) = unat w"
  by (simp add: unsigned_ucast_eq take_bit_eq_mod)

lemma unat_eq_15: "(unat (w::uint8) = 15) = (w = 0xf)"
  by (simp add: word_unat_eq_iff)

lemma op_x_lt: "unat (op_x op) < 16"
proof -
  have "drop_bit 8 (op_nnn op) AND 0xf \<le> 0xf" by (rule word_and_le1)
  then have "unat (drop_bit 8 (op_nnn op) AND 0xf) \<le> 15" by (simp add: word_le_nat_alt)
  then show ?thesis by (simp add: op_x_def unat_ucast_16_8)
qed

lemma op_y_lt: "unat (op_y op) < 16"
proof -
  have "drop_bit 4 (op_nnn op) AND 0xf \<le> 0xf" by (rule word_and_le1)
  then have "unat (drop_bit 4 (op_nnn op) AND 0xf) \<le> 15" by (simp add: word_le_nat_alt)
  then show ?thesis by (simp add: op_y_def unat_ucast_16_8)
qed

lemma op_n_lt: "unat (op_n op) < 16"
proof -
  have "op_nn op AND 0xf \<le> 0xf" by (rule word_and_le1)
  then show ?thesis by (simp add: op_n_def word_le_nat_alt)
qed

lemma put_history_ok:
  "history_ok c \<Longrightarrow>
   put_history line c =
     Inr (c\<lparr>c_ophistory := (c_ophistory c)(nat (c_ophistoryIndex c) := line),
            c_ophistoryIndex := (c_ophistoryIndex c + 1) mod int OpHistoryNum\<rparr>)"
  by (simp add: put_history_def history_ok_def)

lemma execOpcode_Inr:
  assumes "exec_case rnd op c = Inr (c1, m)" and "history_ok c1"
  shows "\<exists>c'. execOpcode rnd op c = Inr c' \<and> c_mem c' = c_mem c1 \<and> c_pc c' = c_pc c1
     \<and> c_v c' = c_v c1 \<and> c_i c' = c_i c1 \<and> c_dt c' = c_dt c1 \<and> c_st c' = c_st c1
     \<and> c_sp c' = c_sp c1 \<and> c_stack c' = c_stack c1 \<and> c_keys c' = c_keys c1
     \<and> c_disp c' = c_disp c1 \<and> history_ok c'"
  using assms by (simp add: execOpcode_def put_history_ok history_ok_def OpHistoryNum_def)

lemma execOpcode_Inl:
  "exec_case rnd op c = Inl e \<Longrightarrow> execOpcode rnd op c = Inl e"
  by (simp add: execOpcode_def)

lemma mask_h:
  assumes "op AND 0xF00F = k" shows "op_h op = k AND 0xF000"
proof -
  have "op AND 0xF000 = (op AND 0xF00F) AND 0xF000" by (simp add: and.assoc)
  then show ?thesis using assms by (simp add: op_h_def)
qed

lemma mask_sub:
  assumes "op AND 0xF00F = k" shows "op_nnn op AND 0xf = k AND 0xf"
proof -
  have "(op AND 0x0FFF) AND 0xf = (op AND 0xF00F) AND 0xf" by (simp add: and.assoc)
  then show ?thesis using assms by (simp add: op_nnn_def)
qed

lemma ucast_sum_gt:
  "((ucast (a::uint8) :: uint16) + ucast (b::uint8) > 0xff) = (unat a + unat b > 255)"
proof -
  have "unat ((ucast a :: uint16) + ucast b) = unat a + unat b"
    using unat8_lt[of a] unat8_lt[of b]
    by (simp add: unat_word_ariths unat_ucast_8_16)
  then show ?thesis by (simp add: word_less_nat_alt)
qed

lemma mask_hn:
  assumes "op AND 0xF0FF = k" shows "op_h op = k AND 0xF000" and "op_nn op = ucast (k AND 0xff)"
proof -
  have "op AND 0xF000 = (op AND 0xF0FF) AND 0xF000" by (simp add: and.assoc)
  then show "op_h op = k AND 0xF000" using assms by (simp add: op_h_def)
  have "(op AND 0x0FFF) AND 0xff = (op AND 0xF0FF) AND 0xff" by (simp add: and.assoc)
  then show "op_nn op = ucast (k AND 0xff)" using assms by (simp add: op_nn_def op_nnn_def)
qed

lemma pressedAnyKey_from_none:
  "(\<forall>j. k \<le> j \<and> j < 16 \<longrightarrow> ks j \<noteq> 1) \<Longrightarrow> pressedAnyKey_from ks k = 0xff"
proof (induction ks k rule: pressedAnyKey_from.induct)
  case (1 ks k)
  show ?case
  proof (cases "k < 16")
    case True
    then have "ks k \<noteq> 1" using "1.prems" by simp
    moreover have "pressedAnyKey_from ks (k + 1) = 0xff"
      using "1.IH"[OF True \<open>ks k \<noteq> 1\<close>] "1.prems" by simp
    ultimately show ?thesis using True by (subst pressedAnyKey_from.simps) simp
  next
    case False
    then show ?thesis by (subst pressedAnyKey_from.simps) simp
  qed
qed

lemma pressedAnyKey_from_first:
  "k \<le> j \<Longrightarrow> j < 16 \<Longrightarrow> ks j = 1 \<Longrightarrow> (\<forall>l. k \<le> l \<and> l < j \<longrightarrow> ks l \<noteq> 1)
   \<Longrightarrow> pressedAnyKey_from ks k = of_nat j"
proof (induction ks k rule: pressedAnyKey_from.induct)
  case (1 ks k)
  have k16: "k < 16" using "1.prems" by simp
  show ?case
  proof (cases "k = j")
    case True
    then show ?thesis using "1.prems" by (subst pressedAnyKey_from.simps) simp
  next
    case False
    then have lt: "k < j" using "1.prems" by simp
    then have nk: "ks k \<noteq> 1" using "1.prems" by simp
    have "pressedAnyKey_from ks (k + 1) = of_nat j"
      using "1.IH"[OF k16 nk] lt "1.prems" by simp
    then show ?thesis using k16 nk by (subst pressedAnyKey_from.simps) simp
  qed
qed

lemma of_nat_key_neq_ff: "j < 16 \<Longrightarrow> (of_nat j :: uint8) \<noteq> 0xff"
proof
  assume "j < 16" and "(of_nat j :: uint8) = 0xff"
  then have "unat (of_nat j :: uint8) = 255" by simp
  then show False using \<open>j < 16\<close> by (simp add: unat_of_nat)
qed

lemma unat_op_x_Suc: "unat (op_x op + 1) = unat (op_x op) + 1"
  using op_x_lt[of op] by (simp add: unat_word_ariths)

lemma execOpcode_ok: "execOpcode rnd op c = Inr c' \<Longrightarrow> history_ok c'"
  by (auto simp: execOpcode_def put_history_def history_ok_def OpHistoryNum_def
      split: sum.splits if_splits)

lemma newChip8_history_ok: "history_ok (newChip8 b)"
  by (simp add: history_ok_def newChip8_def zeroChip8_def Let_def OpHistoryNum_def)

lemma length_characterSprites: "length characterSprites = 80"
  by (simp add: characterSprites_def)

lemma draw_pixel_err: "draw_pixel x y m base iy ix acc = Inl e \<Longrightarrow> e = IndexOutOfRange"
  by (auto simp: draw_pixel_def Let_def split: if_splits)

lemma draw_cols_err: "draw_cols x y m base iy ix acc = Inl e \<Longrightarrow> e = IndexOutOfRange"
proof (induction x y m base iy ix acc rule: draw_cols.induct)
  case (1 x y m base iy ix acc)
  from "1.prems" show ?case
    by (subst (asm) draw_cols.simps) (auto split: if_splits sum.splits dest: draw_pixel_err "1.IH")
qed

lemma draw_rows_err: "draw_rows x y m base n iy acc = Inl e \<Longrightarrow> e = IndexOutOfRange"
proof (induction x y m base n iy acc rule: draw_rows.induct)
  case (1 x y m base n iy acc)
  from "1.prems" show ?case
    by (subst (asm) draw_rows.simps) (auto split: if_splits sum.splits dest: draw_cols_err "1.IH")
qed

lemma draw_err: "draw x y n c = Inl e \<Longrightarrow> e \<noteq> NotImplemented w"
  by (auto simp: draw_def split: if_splits sum.splits dest: draw_rows_err)

lemma exec_0_fatal:
  "exec_0 op c = Inl (NotImplemented w) \<longleftrightarrow> w = op \<and> op \<noteq> 0x00E0 \<and> op \<noteq> 0x00EE"
  by (auto simp: exec_0_def popStack_def Let_def split: if_splits sum.splits)

lemma exec_8_Inr: "\<exists>r. exec_8 op c = Inr r"
  by (simp add: exec_8_def Let_def)

lemma exec_E_not_fatal: "exec_E op c \<noteq> Inl (NotImplemented w)"
  by (simp add: exec_E_def Let_def)

lemma exec_F_not_fatal: "exec_F op c \<noteq> Inl (NotImplemented w)"
  by (simp add: exec_F_def Let_def mem_store_def)

lemma exec_case_fatal:
  "exec_case rnd op c = Inl (NotImplemented w)
   \<longleftrightarrow> w = op \<and> op_h op = 0 \<and> op \<noteq> 0x00E0 \<and> op \<noteq> 0x00EE"
proof (cases "op_h op = 0")
  case True
  then show ?thesis by (simp add: exec_case_def Let_def exec_0_fatal)
next
  case False
  have d: "draw x y n c \<noteq> Inl (NotImplemented w)" for x y n
    using draw_err by blast
  have e8: "exec_8 op c \<noteq> Inl (NotImplemented w)" using exec_8_Inr[of op c] by auto
  have "exec_case rnd op c \<noteq> Inl (NotImplemented w)"
    unfolding exec_case_def Let_def
    by (auto simp: False e8 exec_E_not_fatal exec_F_not_fatal d pushStack_def split: sum.splits)
  then show ?thesis using False by simp
qed

lemma execOpcode_fatal:
  "execOpcode rnd op c = Inl (NotImplemented w)
   \<longleftrightarrow> w = op \<and> op_h op = 0 \<and> op \<noteq> 0x00E0 \<and> op \<noteq> 0x00EE"
proof -
  have "execOpcode rnd op c = Inl (NotImplemented w) \<longleftrightarrow> exec_case rnd op c = Inl (NotImplemented w)"
    by (auto simp: execOpcode_def put_history_def split: sum.splits if_splits)
  then show ?thesis by (simp add: exec_case_fatal)
qed

lemma exec_8_unrecognized:
  "op_nnn op AND 0xf \<notin> {0, 1, 2, 3, 4, 5, 6, 7, 0xE} \<Longrightarrow> exec_8 op c = Inr (c, [])"
  by (simp add: exec_8_def Let_def)

lemma exec_E_unrecognized:
  "op_nn op \<notin> {0x9E, 0xA1} \<Longrightarrow> exec_E op c = Inr (c, [])"
  by (simp add: exec_E_def Let_def)

lemma exec_F_unrecognized:
  "op_nn op \<notin> {0x07, 0x0A, 0x15, 0x18, 0x1E, 0x29, 0x33, 0x55, 0x65} \<Longrightarrow> exec_F op c = Inr (c, [])"
  by (simp add: exec_F_def Let_def)

lemma exec_case_unrecognized:
  assumes "unrecognized_subop op" shows "exec_case rnd op c = Inr (c, [])"
proof -
  consider "op_h op = 0x8000" "op_nnn op AND 0xf \<notin> {0, 1, 2, 3, 4, 5, 6, 7, 0xE}"
    | "op_h op = 0xE000" "op_nn op \<notin> {0x9E, 0xA1}"
    | "op_h op = 0xF000" "op_nn op \<notin> {0x07, 0x0A, 0x15, 0x18, 0x1E, 0x29, 0x33, 0x55, 0x65}"
    using assms unfolding unrecognized_subop_def by blast
  then show ?thesis
  proof cases
    case 1
    then show ?thesis by (simp add: exec_case_def Let_def exec_8_unrecognized)
  next
    case 2
    then show ?thesis by (simp add: exec_case_def Let_def exec_E_unrecognized)
  next
    case 3
    then show ?thesis by (simp add: exec_case_def Let_def exec_F_unrecognized)
  qed
qed
lemma fetch_panic: "unat (c_pc c) \<ge> 4095 \<Longrightarrow> fetchOpcode c = Inl IndexOutOfRange"
proof -
  assume a: "unat (c_pc c) \<ge> 4095"
  have "unat (c_pc c + 1) = 4096" if "unat (c_pc c) = 4095"
    using that by (simp add: unat_word_ariths)
  then have "unat (c_pc c) \<ge> 4096 \<or> unat (c_pc c + 1) \<ge> 4096" using a by fastforce
  then show ?thesis by (simp add: fetchOpcode_def)
qed

lemma cell_div_mod: "tx < 64 \<Longrightarrow> (ty * 64 + tx) div 64 = ty \<and> (ty * 64 + tx) mod 64 = (tx::nat)"
  by simp

lemma cell_eq_iff:
  assumes "tx < 64" shows "(p = ty * 64 + tx) = (p div 64 = ty \<and> p mod 64 = (tx::nat))"
proof
  assume "p = ty * 64 + tx"
  then show "p div 64 = ty \<and> p mod 64 = tx" using assms by simp
next
  assume "p div 64 = ty \<and> p mod 64 = tx"
  then show "p = ty * 64 + tx" using div_mult_mod_eq[of p 64] by simp
qed

lemma draw_pixel_skip:
  "unat x + ix \<ge> 64 \<or> unat y + iy \<ge> 32 \<Longrightarrow> draw_pixel x y m base iy ix acc = Inr acc"
  by (simp add: draw_pixel_def Chip8DisplayW_def Chip8DisplayH_def)

lemma draw_pixel_write:
  "unat x + ix < 64 \<Longrightarrow> unat y + iy < 32 \<Longrightarrow> base + iy < 4096 \<Longrightarrow>
   draw_pixel x y m base iy ix acc =
     Inr ((fst acc)((unat y + iy) * 64 + (unat x + ix) :=
             fst acc ((unat y + iy) * 64 + (unat x + ix)) XOR sprite_bit m base iy ix),
          snd acc \<or> (fst acc ((unat y + iy) * 64 + (unat x + ix)) = 1 \<and> sprite_bit m base iy ix = 1))"
  by (auto simp: draw_pixel_def Chip8DisplayW_def Chip8DisplayH_def Let_def sprite_bit_def)

lemma cols_disp_skip:
  "unat x + ix \<ge> 64 \<or> unat y + iy \<ge> 32 \<Longrightarrow>
   cols_disp x y m base iy (ix + 1) d = cols_disp x y m base iy ix d"
  by (auto simp: cols_disp_def fun_eq_iff)

lemma cols_flip_skip:
  "unat x + ix \<ge> 64 \<or> unat y + iy \<ge> 32 \<Longrightarrow>
   cols_flip x y m base iy (ix + 1) d = cols_flip x y m base iy ix d"
proof -
  assume a: "unat x + ix \<ge> 64 \<or> unat y + iy \<ge> 32"
  have "(ix + 1 \<le> col \<and> unat x + col < 64 \<and> unat y + iy < 32)
      = (ix \<le> col \<and> unat x + col < 64 \<and> unat y + iy < 32)" for col
    using a by arith
  then show ?thesis unfolding cols_flip_def by blast
qed

lemma cols_disp_write:
  assumes "unat x + ix < 64" and "unat y + iy < 32" and "ix < 8"
  shows "cols_disp x y m base iy (ix + 1)
           (d((unat y + iy) * 64 + (unat x + ix) :=
                d ((unat y + iy) * 64 + (unat x + ix)) XOR sprite_bit m base iy ix))
         = cols_disp x y m base iy ix d"
proof
  fix p
  let ?cell = "(unat y + iy) * 64 + (unat x + ix)"
  show "cols_disp x y m base iy (ix + 1) (d(?cell := d ?cell XOR sprite_bit m base iy ix)) p
        = cols_disp x y m base iy ix d p"
  proof (cases "p = ?cell")
    case True
    then have "p div 64 = unat y + iy \<and> p mod 64 = unat x + ix"
      using cell_eq_iff[OF assms(1), of p "unat y + iy"] by blast
    then show ?thesis using True assms by (simp add: cols_disp_def)
  next
    case False
    then have "\<not> (p div 64 = unat y + iy \<and> p mod 64 = unat x + ix)"
      using cell_eq_iff[OF assms(1), of p "unat y + iy"] by blast
    then have "(p div 64 = unat y + iy \<and> unat x + (ix + 1) \<le> p mod 64)
             = (p div 64 = unat y + iy \<and> unat x + ix \<le> p mod 64)"
      by arith
    then show ?thesis using False by (auto simp: cols_disp_def)
  qed
qed

lemma cols_flip_write:
  assumes "unat x + ix < 64" and "unat y + iy < 32" and "ix < 8"
  shows "((d ((unat y + iy) * 64 + (unat x + ix)) = 1 \<and> sprite_bit m base iy ix = 1)
          \<or> cols_flip x y m base iy (ix + 1)
               (d((unat y + iy) * 64 + (unat x + ix) :=
                    d ((unat y + iy) * 64 + (unat x + ix)) XOR sprite_bit m base iy ix)))
         = cols_flip x y m base iy ix d"
proof -
  let ?cell = "\<lambda>col. (unat y + iy) * 64 + (unat x + col)"
  let ?d1 = "d(?cell ix := d (?cell ix) XOR sprite_bit m base iy ix)"
  have other: "?d1 (?cell col) = d (?cell col)" if "ix + 1 \<le> col" for col
    using that by simp
  have "cols_flip x y m base iy (ix + 1) ?d1 = cols_flip x y m base iy (ix + 1) d"
    unfolding cols_flip_def using other by (metis (no_types, lifting))
  moreover have "cols_flip x y m base iy ix d
      = ((d (?cell ix) = 1 \<and> sprite_bit m base iy ix = 1) \<or> cols_flip x y m base iy (ix + 1) d)"
  proof
    assume "cols_flip x y m base iy ix d"
    then obtain col where c: "ix \<le> col" "col < 8" "unat x + col < 64" "unat y + iy < 32"
        "d (?cell col) = 1" "sprite_bit m base iy col = 1"
      unfolding cols_flip_def by blast
    show "(d (?cell ix) = 1 \<and> sprite_bit m base iy ix = 1) \<or> cols_flip x y m base iy (ix + 1) d"
    proof (cases "col = ix")
      case True
      then show ?thesis using c by simp
    next
      case False
      then have "ix + 1 \<le> col" using c(1) by simp
      then show ?thesis unfolding cols_flip_def using c by blast
    qed
  next
    assume "(d (?cell ix) = 1 \<and> sprite_bit m base iy ix = 1) \<or> cols_flip x y m base iy (ix + 1) d"
    then show "cols_flip x y m base iy ix d"
    proof
      assume "d (?cell ix) = 1 \<and> sprite_bit m base iy ix = 1"
      then show ?thesis unfolding cols_flip_def using assms by blast
    next
      assume "cols_flip x y m base iy (ix + 1) d"
      then obtain col where c: "ix + 1 \<le> col" "col < 8" "unat x + col < 64" "unat y + iy < 32"
          "d (?cell col) = 1" "sprite_bit m base iy col = 1"
        unfolding cols_flip_def by blast
      then have "ix \<le> col" by simp
      then show ?thesis unfolding cols_flip_def using c by blast
    qed
  qed
  ultimately show ?thesis by simp
qed

lemma cols_done:
  "\<not> ix < 8 \<Longrightarrow> cols_disp x y m base iy ix d = d \<and> \<not> cols_flip x y m base iy ix d"
  by (auto simp: cols_disp_def cols_flip_def fun_eq_iff)

lemma draw_cols_eq:
  "base + iy < 4096 \<Longrightarrow>
   draw_cols x y m base iy ix acc =
     Inr (cols_disp x y m base iy ix (fst acc), snd acc \<or> cols_flip x y m base iy ix (fst acc))"
proof (induction x y m base iy ix acc rule: draw_cols.induct)
  case (1 x y m base iy ix acc)
  show ?case
  proof (cases "ix < 8")
    case False
    then show ?thesis
      using cols_done[OF False] by (subst draw_cols.simps) simp
  next
    case True
    show ?thesis
    proof (cases "unat x + ix \<ge> 64 \<or> unat y + iy \<ge> 32")
      case off: True
      have "draw_cols x y m base iy ix acc = draw_cols x y m base iy (ix + 1) acc"
        using True draw_pixel_skip[OF off] by (subst draw_cols.simps) simp
      also have "\<dots> = Inr (cols_disp x y m base iy (ix + 1) (fst acc),
                           snd acc \<or> cols_flip x y m base iy (ix + 1) (fst acc))"
        using "1.IH"[OF True draw_pixel_skip[OF off] "1.prems"] .
      finally show ?thesis
        using cols_disp_skip[OF off, of m base "fst acc"] cols_flip_skip[OF off, of m base "fst acc"]
        by simp
    next
      case onscr: False
      then have on: "unat x + ix < 64" "unat y + iy < 32" by simp_all
      let ?cell = "(unat y + iy) * 64 + (unat x + ix)"
      let ?acc' = "((fst acc)(?cell := fst acc ?cell XOR sprite_bit m base iy ix),
                    snd acc \<or> (fst acc ?cell = 1 \<and> sprite_bit m base iy ix = 1))"
      have px: "draw_pixel x y m base iy ix acc = Inr ?acc'"
        using draw_pixel_write[OF on "1.prems"] .
      have "draw_cols x y m base iy ix acc = draw_cols x y m base iy (ix + 1) ?acc'"
        using True px by (subst draw_cols.simps) simp
      also have "\<dots> = Inr (cols_disp x y m base iy (ix + 1) (fst ?acc'),
                           snd ?acc' \<or> cols_flip x y m base iy (ix + 1) (fst ?acc'))"
        using "1.IH"[OF True px "1.prems"] .
      finally show ?thesis
        using cols_disp_write[OF on True, of m base "fst acc"]
          cols_flip_write[OF on True, of "fst acc" m base]
        by auto
    qed
  qed
qed

lemma rows_disp_step:
  assumes "iy < n"
  shows "rows_disp x y m base n (iy + 1) (cols_disp x y m base iy 0 d) = rows_disp x y m base n iy d"
proof
  fix p
  show "rows_disp x y m base n (iy + 1) (cols_disp x y m base iy 0 d) p = rows_disp x y m base n iy d p"
  proof (cases "p div 64 = unat y + iy")
    case True
    then have "p div 64 - unat y = iy" by simp
    then show ?thesis using True assms by (simp add: rows_disp_def cols_disp_def)
  next
    case False
    then have "(unat y + (iy + 1) \<le> p div 64) = (unat y + iy \<le> p div 64)" by arith
    then show ?thesis using False by (simp add: rows_disp_def cols_disp_def)
  qed
qed

lemma rows_flip_step:
  assumes "iy < n"
  shows "(cols_flip x y m base iy 0 d \<or> rows_flip x y m base n (iy + 1) (cols_disp x y m base iy 0 d))
         = rows_flip x y m base n iy d"
proof -
  let ?cell = "\<lambda>row col. (unat y + row) * 64 + (unat x + col)"
  let ?d1 = "cols_disp x y m base iy 0 d"
  have other: "?d1 (?cell row col) = d (?cell row col)" if "iy + 1 \<le> row" "unat x + col < 64" for row col
  proof -
    have "?cell row col div 64 = unat y + row" using cell_eq_iff[OF that(2)] by blast
    then have "?cell row col div 64 \<noteq> unat y + iy" using that(1) by simp
    then show ?thesis by (simp add: cols_disp_def)
  qed
  have later: "rows_flip x y m base n (iy + 1) ?d1 = rows_flip x y m base n (iy + 1) d"
    unfolding rows_flip_def using other by (metis (no_types, lifting))
  have "rows_flip x y m base n iy d
      = (cols_flip x y m base iy 0 d \<or> rows_flip x y m base n (iy + 1) d)"
  proof
    assume "rows_flip x y m base n iy d"
    then obtain row col where c: "iy \<le> row" "row < n" "col < 8" "unat x + col < 64"
        "unat y + row < 32" "d (?cell row col) = 1" "sprite_bit m base row col = 1"
      unfolding rows_flip_def by blast
    show "cols_flip x y m base iy 0 d \<or> rows_flip x y m base n (iy + 1) d"
    proof (cases "row = iy")
      case True
      then have "cols_flip x y m base iy 0 d" unfolding cols_flip_def using c by blast
      then show ?thesis ..
    next
      case False
      then have "iy + 1 \<le> row" using c(1) by simp
      then have "rows_flip x y m base n (iy + 1) d" unfolding rows_flip_def using c by blast
      then show ?thesis ..
    qed
  next
    assume "cols_flip x y m base iy 0 d \<or> rows_flip x y m base n (iy + 1) d"
    then show "rows_flip x y m base n iy d"
    proof
      assume "cols_flip x y m base iy 0 d"
      then obtain col where c: "col < 8" "unat x + col < 64" "unat y + iy < 32"
          "d (?cell iy col) = 1" "sprite_bit m base iy col = 1"
        unfolding cols_flip_def by blast
      have "iy \<le> iy" by simp
      then show ?thesis unfolding rows_flip_def using c assms by blast
    next
      assume "rows_flip x y m base n (iy + 1) d"
      then obtain row col where c: "iy + 1 \<le> row" "row < n" "col < 8" "unat x + col < 64"
          "unat y + row < 32" "d (?cell row col) = 1" "sprite_bit m base row col = 1"
        unfolding rows_flip_def by blast
      then have "iy \<le> row" by simp
      then show ?thesis unfolding rows_flip_def using c by blast
    qed
  qed
  then show ?thesis using later by simp
qed

lemma rows_done:
  "\<not> iy < n \<Longrightarrow> rows_disp x y m base n iy d = d \<and> \<not> rows_flip x y m base n iy d"
  by (auto simp: rows_disp_def rows_flip_def fun_eq_iff)

lemma draw_rows_eq:
  "base + n \<le> 4096 \<Longrightarrow>
   draw_rows x y m base n iy acc =
     Inr (rows_disp x y m base n iy (fst acc), snd acc \<or> rows_flip x y m base n iy (fst acc))"
proof (induction x y m base n iy acc rule: draw_rows.induct)
  case (1 x y m base n iy acc)
  show ?case
  proof (cases "iy < n")
    case False
    then show ?thesis
      using rows_done[OF False] by (subst draw_rows.simps) simp
  next
    case True
    let ?acc' = "(cols_disp x y m base iy 0 (fst acc), snd acc \<or> cols_flip x y m base iy 0 (fst acc))"
    have "base + iy < 4096" using True "1.prems" by simp
    then have cols: "draw_cols x y m base iy 0 acc = Inr ?acc'" by (rule draw_cols_eq)
    have "draw_rows x y m base n iy acc = draw_rows x y m base n (iy + 1) ?acc'"
      using True cols by (subst draw_rows.simps) simp
    also have "\<dots> = Inr (rows_disp x y m base n (iy + 1) (fst ?acc'),
                         snd ?acc' \<or> rows_flip x y m base n (iy + 1) (fst ?acc'))"
      using "1.IH"[OF True cols "1.prems"] .
    finally show ?thesis
      using rows_disp_step[OF True, of x y m base "fst acc"]
        rows_flip_step[OF True, of x y m base "fst acc"]
      by auto
  qed
qed

lemma xor_bit_zero: "(1 XOR sprite_bit m base row col = 0) = (sprite_bit m base row col = 1)"
  by (metis xor.right_neutral xor_self_eq bit.xor_self xor.left_commute)

lemma exec_0_timers:
  "exec_0 op c = Inr (c1, m) \<Longrightarrow> c_dt c1 = c_dt c \<and> c_st c1 = c_st c"
  by (auto simp: exec_0_def popStack_def Let_def split: if_splits)

lemma exec_8_timers:
  "exec_8 op c = Inr (c1, m) \<Longrightarrow> c_dt c1 = c_dt c \<and> c_st c1 = c_st c"
  by (auto simp: exec_8_def Let_def set_v_def updateCarryFlag_def split: if_splits)

lemma exec_E_timers:
  "exec_E op c = Inr (c1, m) \<Longrightarrow> c_dt c1 = c_dt c \<and> c_st c1 = c_st c"
  by (auto simp: exec_E_def Let_def skip_if_def split: if_splits)

lemma mem_store_timers:
  "mem_store a w c = Inr c1 \<Longrightarrow> c_dt c1 = c_dt c \<and> c_st c1 = c_st c \<and> c_i c1 = c_i c \<and> c_v c1 = c_v c"
  by (auto simp: mem_store_def split: if_splits)

lemma exec_F_timers:
  "exec_F op c = Inr (c1, m) \<Longrightarrow>
   c_dt c1 = (if op_nn op = 0x15 then get_v c (op_x op) else c_dt c)
   \<and> c_st c1 = (if op_nn op = 0x18 then get_v c (op_x op) else c_st c)"
  by (auto simp: exec_F_def Let_def set_v_def split: if_splits sum.splits dest!: mem_store_timers)

lemma draw_timers:
  "draw x y n c = Inr (f, c1) \<Longrightarrow> c_dt c1 = c_dt c \<and> c_st c1 = c_st c"
  by (auto simp: draw_def split: if_splits sum.splits)

lemma exec_case_timers:
  assumes "exec_case rnd op c = Inr (c1, m)"
  shows "c_dt c1 = (if op_h op = 0xF000 \<and> op_nn op = 0x15 then get_v c (op_x op) else c_dt c)
     \<and> c_st c1 = (if op_h op = 0xF000 \<and> op_nn op = 0x18 then get_v c (op_x op) else c_st c)"
proof -
  consider "op_h op = 0x0000" | "op_h op = 0x8000" | "op_h op = 0xE000" | "op_h op = 0xF000"
    | "op_h op = 0x2000" | "op_h op = 0xD000"
    | "op_h op \<notin> {0x0000, 0x8000, 0xE000, 0xF000, 0x2000, 0xD000}"
    by blast
  then show ?thesis
  proof cases
    case 1
    then show ?thesis using assms exec_0_timers[of op c c1 m] by (simp add: exec_case_def Let_def)
  next
    case 2
    then show ?thesis using assms exec_8_timers[of op c c1 m] by (simp add: exec_case_def Let_def)
  next
    case 3
    then show ?thesis using assms exec_E_timers[of op c c1 m] by (simp add: exec_case_def Let_def)
  next
    case 4
    then show ?thesis using assms exec_F_timers[of op c c1 m] by (simp add: exec_case_def Let_def)
  next
    case 5
    then show ?thesis using assms
      by (auto simp: exec_case_def Let_def pushStack_def split: if_splits)
  next
    case 6
    then show ?thesis using assms
      by (auto simp: exec_case_def Let_def updateCarryFlag_def split: sum.splits dest!: draw_timers)
  next
    case 7
    then show ?thesis using assms
      by (auto simp: exec_case_def Let_def skip_if_def set_v_def split: if_splits)
  qed
qed

lemma execOpcode_timers:
  assumes "execOpcode rnd op c = Inr c'"
  shows "c_dt c' = (if op_h op = 0xF000 \<and> op_nn op = 0x15 then get_v c (op_x op) else c_dt c)
     \<and> c_st c' = (if op_h op = 0xF000 \<and> op_nn op = 0x18 then get_v c (op_x op) else c_st c)"
proof -
  obtain c1 m where 1: "exec_case rnd op c = Inr (c1, m)" and 2: "c_dt c' = c_dt c1" "c_st c' = c_st c1"
    using assms
    by (auto simp: execOpcode_def put_history_def split: sum.splits if_splits)
  show ?thesis using exec_case_timers[OF 1] 2 by simp
qed

section \<open>Timer service\<close>

text \<open>
  C8 (as amended).  One call of \<open>decrementTimer\<close> lowers the delay timer by exactly 1
  when it is nonzero and leaves it at 0 when it is 0, does the same, independently, for
  the sound timer, and changes no other component of the state; it never raises a timer.
  Apart from the tick, the engine writes a timer only where the program asks for it:
  FX15 sets the delay timer to VX, FX18 sets the sound timer to VX, and every other
  instruction that returns leaves both timers as they were, for \<open>execOpcode\<close> and for a
  whole \<open>step\<close>; \<open>newChip8\<close> starts both timers at 0.
\<close>

theorem C8_timers:
  "decrementTimer c =
     c\<lparr>c_dt := (if c_dt c = 0 then 0 else c_dt c - 1),
       c_st := (if c_st c = 0 then 0 else c_st c - 1)\<rparr>
   \<and> unat (c_dt (decrementTimer c)) = unat (c_dt c) - (if c_dt c = 0 then 0 else 1)
   \<and> unat (c_st (decrementTimer c)) = unat (c_st c) - (if c_st c = 0 then 0 else 1)
   \<and> (execOpcode rnd op c = Inr c' \<longrightarrow>
        c_dt c' = (if op_h op = 0xF000 \<and> op_nn op = 0x15 then get_v c (op_x op) else c_dt c)
        \<and> c_st c' = (if op_h op = 0xF000 \<and> op_nn op = 0x18 then get_v c (op_x op) else c_st c))
   \<and> (fetchOpcode c = Inr (op, c1) \<and> step rnd c = Inr c' \<longrightarrow>
        c_dt c' = (if op_h op = 0xF000 \<and> op_nn op = 0x15 then get_v c (op_x op) else c_dt c)
        \<and> c_st c' = (if op_h op = 0xF000 \<and> op_nn op = 0x18 then get_v c (op_x op) else c_st c))
   \<and> c_dt (newChip8 b) = 0 \<and> c_st (newChip8 b) = 0"
proof -
  have tick: "decrementTimer c =
     c\<lparr>c_dt := (if c_dt c = 0 then 0 else c_dt c - 1),
       c_st := (if c_st c = 0 then 0 else c_st c - 1)\<rparr>
   \<and> unat (c_dt (decrementTimer c)) = unat (c_dt c) - (if c_dt c = 0 then 0 else 1)
   \<and> unat (c_st (decrementTimer c)) = unat (c_st c) - (if c_st c = 0 then 0 else 1)"
    by (simp add: decrementTimer_def Let_def word_greater_zero_iff unat_minus_one)
  have ex: "c_dt c' = (if op_h op = 0xF000 \<and> op_nn op = 0x15 then get_v c (op_x op) else c_dt c)
        \<and> c_st c' = (if op_h op = 0xF000 \<and> op_nn op = 0x18 then get_v c (op_x op) else c_st c)"
    if "execOpcode rnd op c = Inr c'"
    using execOpcode_timers[OF that] .
  have st: "c_dt c' = (if op_h op = 0xF000 \<and> op_nn op = 0x15 then get_v c (op_x op) else c_dt c)
        \<and> c_st c' = (if op_h op = 0xF000 \<and> op_nn op = 0x18 then get_v c (op_x op) else c_st c)"
    if "fetchOpcode c = Inr (op, c1) \<and> step rnd c = Inr c'"
  proof -
    have f: "c1 = c\<lparr>c_pc := c_pc c + 2\<rparr>"
      using that by (auto simp: fetchOpcode_def split: if_splits)
    have "execOpcode rnd op c1 = Inr c'" using that by (auto simp: step_def)
    from execOpcode_timers[OF this] show ?thesis by (simp add: f get_v_def)
  qed
  have init: "c_dt (newChip8 b) = 0 \<and> c_st (newChip8 b) = 0"
    by (simp add: newChip8_def zeroChip8_def Let_def)
  show ?thesis using tick ex st init by blast
qed

text \<open>
  Instances of C8: a jump (1234) leaves a delay timer of 5 and a sound timer of 7 as they
  are; FX18 with V3 = 10, as in the test table, sets the sound timer to 10 and leaves the
  delay timer at 5.
\<close>

theorem C8_witness:
  "\<not> isl (execOpcode 0 0x1234 ((newChip8 [0x12, 0x34])\<lparr>c_pc := 0x202, c_dt := 5, c_st := 7\<rparr>))
   \<and> c_dt (projr (execOpcode 0 0x1234
                 ((newChip8 [0x12, 0x34])\<lparr>c_pc := 0x202, c_dt := 5, c_st := 7\<rparr>))) = 5
   \<and> c_st (projr (execOpcode 0 0x1234
                 ((newChip8 [0x12, 0x34])\<lparr>c_pc := 0x202, c_dt := 5, c_st := 7\<rparr>))) = 7
   \<and> \<not> isl (execOpcode 0 0xF318
              ((newChip8 [0xF3, 0x18])\<lparr>c_pc := 0x202, c_dt := 5, c_v := (\<lambda>_. 0)(3 := 10)\<rparr>))
   \<and> c_dt (projr (execOpcode 0 0xF318
              ((newChip8 [0xF3, 0x18])\<lparr>c_pc := 0x202, c_dt := 5, c_v := (\<lambda>_. 0)(3 := 10)\<rparr>))) = 5
   \<and> c_st (projr (execOpcode 0 0xF318
              ((newChip8 [0xF3, 0x18])\<lparr>c_pc := 0x202, c_dt := 5, c_v := (\<lambda>_. 0)(3 := 10)\<rparr>))) = 10"
proof -
  let ?S = "(newChip8 [0x12, 0x34])\<lparr>c_pc := 0x202, c_dt := 5, c_st := 7\<rparr>"
  let ?T = "(newChip8 [0xF3, 0x18])\<lparr>c_pc := 0x202, c_dt := 5, c_v := (\<lambda>_. 0)(3 := 10)\<rparr>"
  have s: "\<not> isl (execOpcode 0 0x1234 ?S)" and t: "\<not> isl (execOpcode 0 0xF318 ?T)"
    by (simp_all add: run_defs)
  have s': "execOpcode 0 0x1234 ?S = Inr (projr (execOpcode 0 0x1234 ?S))"
    and t': "execOpcode 0 0xF318 ?T = Inr (projr (execOpcode 0 0xF318 ?T))"
    using s t by simp_all
  have f: "op_h 0x1234 = 0x1000" "op_h 0xF318 = 0xF000" "op_nn 0xF318 = 0x18" "op_x 0xF318 = 3"
    by (simp_all add: op_h_def op_nn_def op_nnn_def op_x_def)
  have 1: "c_dt (projr (execOpcode 0 0x1234 ?S)) = 5 \<and> c_st (projr (execOpcode 0 0x1234 ?S)) = 7"
    using s' C8_timers[of ?S 0 "0x1234" "projr (execOpcode 0 0x1234 ?S)"] by (simp add: f)
  have 2: "c_dt (projr (execOpcode 0 0xF318 ?T)) = 5 \<and> c_st (projr (execOpcode 0 0xF318 ?T)) = 10"
    using t' C8_timers[of ?T 0 "0xF318" "projr (execOpcode 0 0xF318 ?T)"] by (simp add: f get_v_def)
  show ?thesis using s t 1 2 by blast
qed

text \<open>
  C8 as first stated fails: the program 62 0A F2 15 (load V2 with 10, set the delay timer
  from V2) finds the delay timer at 0 after its first step and restarts it at 10 in its
  second.
\<close>

theorem C8_counterexample:
  "\<not> isl (step 0 (newChip8 [0x62, 0x0A, 0xF2, 0x15]))
   \<and> c_dt (projr (step 0 (newChip8 [0x62, 0x0A, 0xF2, 0x15]))) = 0
   \<and> \<not> isl (step 0 (projr (step 0 (newChip8 [0x62, 0x0A, 0xF2, 0x15]))))
   \<and> c_dt (projr (step 0 (projr (step 0 (newChip8 [0x62, 0x0A, 0xF2, 0x15]))))) = 10"
  by (simp add: run_defs)

section \<open>Arithmetic and flag register\<close>

text \<open>
  C2 (as amended).  After add-registers (8XY4) the flag register VF is 1 when the sum of
  the old VX and the old VY exceeds 255 and 0 otherwise, for every X and Y, also X = 0xF:
  the flag is computed from the operands before anything is written, and it is written
  last.  For every X other than 0xF, VX is (old VX + old VY) mod 256.
\<close>

theorem C2_add_registers:
  assumes "op AND 0xF00F = 0x8004" and "history_ok c"
  shows "\<exists>c'. execOpcode rnd op c = Inr c'
     \<and> c_v c' 0xf = (if unat (get_v c (op_x op)) + unat (get_v c (op_y op)) > 255 then 1 else 0)
     \<and> (op_x op \<noteq> 0xf \<longrightarrow>
          unat (get_v c' (op_x op)) = (unat (get_v c (op_x op)) + unat (get_v c (op_y op))) mod 256)"
proof -
  let ?x = "op_x op" and ?y = "op_y op"
  let ?c1 = "updateCarryFlag (unat (get_v c ?x) + unat (get_v c ?y) > 255)
               (set_v ?x (get_v c ?x + get_v c ?y) c)"
  have h: "op_h op = 0x8000" and s: "op_nnn op AND 0xf = 4"
    using mask_h[OF assms(1)] mask_sub[OF assms(1)] by simp_all
  have "exec_case rnd op c = Inr (?c1, ''ADD  V'' @ fmtX 0 (unat ?x) @ '',V'' @ fmtX 0 (unat ?y))"
    by (simp add: exec_case_def exec_8_def h s Let_def ucast_sum_gt)
  moreover have "history_ok ?c1"
    using assms(2) by (simp add: history_ok_def updateCarryFlag_def set_v_def)
  ultimately obtain c' where c': "execOpcode rnd op c = Inr c'" "c_v c' = c_v ?c1"
    using execOpcode_Inr by blast
  show ?thesis
    using c'
    by (auto simp: updateCarryFlag_def set_v_def get_v_def unat_word_ariths unat_eq_15)
qed

text \<open>An instance of C2: the carry case of the test table (0xAB + 0xCD).\<close>

theorem C2_witness:
  "(0x8894 :: uint16) AND 0xF00F = 0x8004
   \<and> history_ok ((newChip8 [0x88, 0x94])\<lparr>c_pc := 0x202, c_v := (\<lambda>_. 0)(8 := 0xab, 9 := 0xcd)\<rparr>)
   \<and> (\<exists>c'. execOpcode 0 0x8894
               ((newChip8 [0x88, 0x94])\<lparr>c_pc := 0x202, c_v := (\<lambda>_. 0)(8 := 0xab, 9 := 0xcd)\<rparr>) = Inr c'
          \<and> c_v c' 0xf = 1 \<and> unat (get_v c' 8) = 0x78)"
proof -
  let ?S = "(newChip8 [0x88, 0x94])\<lparr>c_pc := 0x202, c_v := (\<lambda>_. 0)(8 := 0xab, 9 := 0xcd)\<rparr>"
  have a: "(0x8894 :: uint16) AND 0xF00F = 0x8004" by simp
  have b: "history_ok ?S" by (simp add: history_ok_def newChip8_def zeroChip8_def Let_def OpHistoryNum_def)
  have x: "op_x 0x8894 = 8" and y: "op_y 0x8894 = 9"
    by (simp_all add: op_x_def op_y_def op_nnn_def)
  show ?thesis
    using a b C2_add_registers[OF a b, of 0]
    by (simp add: x y get_v_def)
qed

text \<open>
  C2 as first stated fails: with X = 0xF it asks VF to hold both the truncated sum and the
  carry.  For VF = 0 and V0 = 2 the sum is 2, and the register holds the carry 0.
\<close>

theorem C2_counterexample:
  "\<not> isl (step 0 ((newChip8 [0x8F, 0x04])\<lparr>c_v := (\<lambda>_. 0)(0 := 2)\<rparr>))
   \<and> unat (c_v (projr (step 0 ((newChip8 [0x8F, 0x04])\<lparr>c_v := (\<lambda>_. 0)(0 := 2)\<rparr>))) 0xf)
       \<noteq> (unat (c_v ((newChip8 [0x8F, 0x04])\<lparr>c_v := (\<lambda>_. 0)(0 := 2)\<rparr>) 0xf)
            + unat (c_v ((newChip8 [0x8F, 0x04])\<lparr>c_v := (\<lambda>_. 0)(0 := 2)\<rparr>) 0)) mod 256"
  by (simp add: run_defs)

text \<open>
  C3, for the register selectors other than 0xF.  After shift-right (8XY6) with X not
  0xF, VF is the least-significant bit of the old VX and VX is the old VX shifted right
  by one; the flag is computed from the operand before it is overwritten.
\<close>

theorem C3_shift_right:
  assumes "op AND 0xF00F = 0x8006" and "history_ok c" and "op_x op \<noteq> 0xf"
  shows "\<exists>c'. execOpcode rnd op c = Inr c'
     \<and> c_v c' 0xf = get_v c (op_x op) AND 1
     \<and> get_v c' (op_x op) = drop_bit 1 (get_v c (op_x op))"
proof -
  let ?x = "op_x op"
  let ?c1 = "updateCarryFlag (get_v c ?x AND 0x01 = 1) c"
  let ?c2 = "set_v ?x (drop_bit 1 (get_v ?c1 ?x)) ?c1"
  have h: "op_h op = 0x8000" and s: "op_nnn op AND 0xf = 6"
    using mask_h[OF assms(1)] mask_sub[OF assms(1)] by simp_all
  have "exec_case rnd op c = Inr (?c2, ''SHR  V'' @ fmtX 0 (unat ?x))"
    by (simp add: exec_case_def exec_8_def h s Let_def)
  moreover have "history_ok ?c2"
    using assms(2) by (simp add: history_ok_def updateCarryFlag_def set_v_def)
  ultimately obtain c' where c': "execOpcode rnd op c = Inr c'" "c_v c' = c_v ?c2"
    using execOpcode_Inr by blast
  have lsb: "w AND 1 = (if w AND 1 = 1 then 1 else 0)" for w :: uint8
    by (simp add: and_one_eq) 
  show ?thesis
    using c' assms(3) lsb[of "c_v c (unat ?x)"]
    by (auto simp: updateCarryFlag_def set_v_def get_v_def unat_eq_15)
qed

text \<open>An instance of C3: the first shift-right case of the test table (VC = 3).\<close>

theorem C3_witness:
  "(0x8CD6 :: uint16) AND 0xF00F = 0x8006
   \<and> history_ok ((newChip8 [0x8C, 0xD6])\<lparr>c_pc := 0x202, c_v := (\<lambda>_. 0)(0xc := 0x3)\<rparr>)
   \<and> op_x 0x8CD6 \<noteq> 0xf
   \<and> (\<exists>c'. execOpcode 0 0x8CD6
               ((newChip8 [0x8C, 0xD6])\<lparr>c_pc := 0x202, c_v := (\<lambda>_. 0)(0xc := 0x3)\<rparr>) = Inr c'
          \<and> c_v c' 0xf = 1 \<and> c_v c' 0xc = 1)"
proof -
  let ?S = "(newChip8 [0x8C, 0xD6])\<lparr>c_pc := 0x202, c_v := (\<lambda>_. 0)(0xc := 0x3)\<rparr>"
  have a: "(0x8CD6 :: uint16) AND 0xF00F = 0x8006" by simp
  have b: "history_ok ?S" by (simp add: history_ok_def newChip8_def zeroChip8_def Let_def OpHistoryNum_def)
  have x: "op_x 0x8CD6 = 0xc" by (simp add: op_x_def op_nnn_def)
  have d: "op_x 0x8CD6 \<noteq> 0xf" by (simp add: x)
  show ?thesis
    using a b d C3_shift_right[OF a b d, of 0]
    by (simp add: x get_v_def)
qed

text \<open>
  With X = 0xF the handler writes the flag into VF and then shifts the register it has
  just written, so the flag is lost: shift-right on VF leaves VF = 0 in every state.
  The handlers of 8XY4, 8XY5 and 8XY7 write the flag last.
\<close>

lemma C3_shift_right_flag_register:
  assumes "op AND 0xF00F = 0x8006" and "history_ok c" and "op_x op = 0xf"
  shows "\<exists>c'. execOpcode rnd op c = Inr c' \<and> c_v c' 0xf = 0"
proof -
  let ?c1 = "updateCarryFlag (get_v c 0xf AND 0x01 = 1) c"
  let ?c2 = "set_v 0xf (drop_bit 1 (get_v ?c1 0xf)) ?c1"
  have h: "op_h op = 0x8000" and s: "op_nnn op AND 0xf = 6"
    using mask_h[OF assms(1)] mask_sub[OF assms(1)] by simp_all
  have "exec_case rnd op c = Inr (?c2, ''SHR  V'' @ fmtX 0 (unat (op_x op)))"
    by (simp add: exec_case_def exec_8_def h s Let_def assms(3))
  moreover have "history_ok ?c2"
    using assms(2) by (simp add: history_ok_def updateCarryFlag_def set_v_def)
  ultimately obtain c' where c': "execOpcode rnd op c = Inr c'" "c_v c' = c_v ?c2"
    using execOpcode_Inr by blast
  have "c_v ?c2 0xf = 0" by (simp add: updateCarryFlag_def set_v_def get_v_def)
  then show ?thesis using c' by auto
qed

text \<open>
  C3 at X = 0xF.  The program 6F 03 8F 06 loads VF with 3 and shifts VF right.  The
  least-significant bit of 3 is 1 and 3 shifted right by one is 1, so C3 asks for VF = 1
  on both counts; the second step leaves VF = 0.
\<close>

theorem C3_failing_input:
  "\<not> isl (step 0 (newChip8 [0x6F, 0x03, 0x8F, 0x06]))
   \<and> c_v (projr (step 0 (newChip8 [0x6F, 0x03, 0x8F, 0x06]))) 0xf = 3
   \<and> (3 :: uint8) AND 1 = 1 \<and> drop_bit 1 (3 :: uint8) = 1
   \<and> \<not> isl (step 0 (projr (step 0 (newChip8 [0x6F, 0x03, 0x8F, 0x06]))))
   \<and> c_v (projr (step 0 (projr (step 0 (newChip8 [0x6F, 0x03, 0x8F, 0x06]))))) 0xf = 0"
  by (simp add: run_defs)

text \<open>
  C4 (as amended).  For every register selector X and immediate NN, add-immediate (7XNN)
  sets VX to (old VX + NN) mod 256 and changes no other register; no carry is written, so
  the flag register VF is unaffected whenever X is not 0xF.
\<close>

theorem C4_add_immediate:
  assumes "op_h op = 0x7000" and "history_ok c"
  shows "\<exists>c'. execOpcode rnd op c = Inr c'
     \<and> unat (get_v c' (op_x op)) = (unat (get_v c (op_x op)) + unat (op_nn op)) mod 256
     \<and> (\<forall>k. k \<noteq> unat (op_x op) \<longrightarrow> c_v c' k = c_v c k)
     \<and> (op_x op \<noteq> 0xf \<longrightarrow> c_v c' 0xf = c_v c 0xf)"
proof -
  let ?x = "op_x op"
  let ?c1 = "set_v ?x (get_v c ?x + op_nn op) c"
  have "exec_case rnd op c = Inr (?c1, ''ADD  V'' @ fmtX 0 (unat ?x) @ '',#'' @ fmtX 2 (unat (op_nn op)))"
    by (simp add: exec_case_def assms(1) Let_def)
  moreover have "history_ok ?c1"
    using assms(2) by (simp add: history_ok_def set_v_def)
  ultimately obtain c' where c': "execOpcode rnd op c = Inr c'" "c_v c' = c_v ?c1"
    using execOpcode_Inr by blast
  show ?thesis
    using c'
    by (auto simp: set_v_def get_v_def unat_word_ariths unat_eq_15)
qed

text \<open>An instance of C4: the add-immediate case of the test table (V8 = 0x0F, NN = 0xF0).\<close>

theorem C4_witness:
  "op_h 0x78F0 = 0x7000
   \<and> history_ok ((newChip8 [0x78, 0xF0])\<lparr>c_pc := 0x202, c_v := (\<lambda>_. 0)(8 := 0xf)\<rparr>)
   \<and> (\<exists>c'. execOpcode 0 0x78F0
               ((newChip8 [0x78, 0xF0])\<lparr>c_pc := 0x202, c_v := (\<lambda>_. 0)(8 := 0xf)\<rparr>) = Inr c'
          \<and> unat (c_v c' 8) = 0xff \<and> c_v c' 0xf = 0)"
proof -
  let ?S = "(newChip8 [0x78, 0xF0])\<lparr>c_pc := 0x202, c_v := (\<lambda>_. 0)(8 := 0xf)\<rparr>"
  have a: "op_h 0x78F0 = 0x7000" by (simp add: op_h_def)
  have b: "history_ok ?S" by (simp add: history_ok_def newChip8_def zeroChip8_def Let_def OpHistoryNum_def)
  have x: "op_x 0x78F0 = 8" and nn: "op_nn 0x78F0 = 0xF0"
    by (simp_all add: op_x_def op_nn_def op_nnn_def)
  show ?thesis
    using a b C4_add_immediate[OF a b, of 0]
    by (auto simp: x nn get_v_def)
qed

text \<open>
  C4 as first stated fails: with X = 0xF the flag register is the destination, and 7F01 on
  a fresh machine changes VF
  from 0 to 1.
\<close>

theorem C4_counterexample:
  "\<not> isl (step 0 (newChip8 [0x7F, 0x01]))
   \<and> c_v (projr (step 0 (newChip8 [0x7F, 0x01]))) 0xf \<noteq> c_v (newChip8 [0x7F, 0x01]) 0xf"
  by (simp add: run_defs)

section \<open>Keypad instructions\<close>

text \<open>
  C6.  Block-for-key (FX0A), executed after the fetch has advanced the program counter.
  When no key flag is set (no cell of the keypad holds 1), the program counter is lowered
  by 2, so that it points at the same instruction again, and no register changes (neither
  V0..VF nor I, the stack pointer or the timers), nor does the memory.  When a flag is set, VX receives the lowest index whose flag is set
  and the advanced program counter stays as it is.
\<close>

theorem C6_block_for_key:
  assumes "op AND 0xF0FF = 0xF00A" and "history_ok c"
  shows "\<exists>c'. execOpcode rnd op c = Inr c' \<and> c_mem c' = c_mem c
     \<and> c_i c' = c_i c \<and> c_sp c' = c_sp c \<and> c_dt c' = c_dt c \<and> c_st c' = c_st c
     \<and> ((\<forall>k<16. c_keys c k \<noteq> 1) \<longrightarrow> c_pc c' = c_pc c - 2 \<and> c_v c' = c_v c)
     \<and> (\<forall>k<16. c_keys c k = 1 \<and> (\<forall>j<k. c_keys c j \<noteq> 1) \<longrightarrow>
            c_pc c' = c_pc c \<and> c_v c' = (c_v c)(unat (op_x op) := of_nat k))"
proof -
  let ?x = "op_x op"
  let ?c1 = "if pressedAnyKey c = 0xff then c\<lparr>c_pc := c_pc c - 2\<rparr> else set_v ?x (pressedAnyKey c) c"
  have h: "op_h op = 0xF000" and nn: "op_nn op = 0x0A"
    using mask_hn[OF assms(1)] by simp_all
  have "exec_case rnd op c = Inr (?c1, ''LD   V'' @ fmtX 0 (unat ?x) @ '',K'')"
    by (simp add: exec_case_def exec_F_def h nn Let_def)
  moreover have "history_ok ?c1"
    using assms(2) by (simp add: history_ok_def set_v_def)
  ultimately obtain c' where c': "execOpcode rnd op c = Inr c'" "c_v c' = c_v ?c1"
      "c_pc c' = c_pc ?c1" "c_mem c' = c_mem ?c1"
    and r: "c_i c' = c_i ?c1" "c_sp c' = c_sp ?c1" "c_dt c' = c_dt ?c1" "c_st c' = c_st ?c1"
    using execOpcode_Inr by blast
  have none: "pressedAnyKey c = 0xff" if "\<forall>k<16. c_keys c k \<noteq> 1"
    unfolding pressedAnyKey_def using that by (intro pressedAnyKey_from_none) simp
  have some: "pressedAnyKey c = of_nat k \<and> pressedAnyKey c \<noteq> 0xff"
    if "k < 16" "c_keys c k = 1" "\<forall>j<k. c_keys c j \<noteq> 1" for k
    unfolding pressedAnyKey_def
    using that pressedAnyKey_from_first[of 0 k "c_keys c"] of_nat_key_neq_ff[of k] by simp
  have A: "c_pc c' = c_pc c - 2 \<and> c_v c' = c_v c" if "\<forall>k<16. c_keys c k \<noteq> 1"
    using c' none[OF that] by simp
  have B: "c_pc c' = c_pc c \<and> c_v c' = (c_v c)(unat ?x := of_nat k)"
    if "k < 16" "c_keys c k = 1 \<and> (\<forall>j<k. c_keys c j \<noteq> 1)" for k
    using c' some[of k] that of_nat_key_neq_ff[of k] by (simp add: set_v_def)
  have "c_mem c' = c_mem c" using c'(4) by (simp add: set_v_def)
  moreover have "c_i c' = c_i c \<and> c_sp c' = c_sp c \<and> c_dt c' = c_dt c \<and> c_st c' = c_st c"
    using r by (simp add: set_v_def)
  ultimately show ?thesis using c'(1) A B by blast
qed

text \<open>
  Instances of C6: the two key-wait cases of the test table (no key; key 1 pressed with
  X = 2),
  and two keys pressed at once, where the lower index wins.
\<close>

theorem C6_witness:
  "(0xF20A :: uint16) AND 0xF0FF = 0xF00A
   \<and> history_ok ((newChip8 [0xF2, 0x0A])\<lparr>c_pc := 0x202\<rparr>)
   \<and> c_keys ((newChip8 [0xF2, 0x0A])\<lparr>c_pc := 0x202\<rparr>) = (\<lambda>_. 0)
   \<and> (\<exists>c'. execOpcode 0 0xF20A ((newChip8 [0xF2, 0x0A])\<lparr>c_pc := 0x202\<rparr>) = Inr c'
          \<and> c_pc c' = 0x200 \<and> c_v c' 2 = 0)
   \<and> history_ok ((newChip8 [0xF2, 0x0A])\<lparr>c_pc := 0x202, c_keys := (\<lambda>_. 0)(1 := 1, 7 := 1)\<rparr>)
   \<and> (\<exists>c'. execOpcode 0 0xF20A
              ((newChip8 [0xF2, 0x0A])\<lparr>c_pc := 0x202, c_keys := (\<lambda>_. 0)(1 := 1, 7 := 1)\<rparr>) = Inr c'
          \<and> c_pc c' = 0x202 \<and> c_v c' 2 = 1)"
proof -
  let ?S = "(newChip8 [0xF2, 0x0A])\<lparr>c_pc := 0x202\<rparr>"
  let ?T = "(newChip8 [0xF2, 0x0A])\<lparr>c_pc := 0x202, c_keys := (\<lambda>_. 0)(1 := 1, 7 := 1)\<rparr>"
  have a: "(0xF20A :: uint16) AND 0xF0FF = 0xF00A" by simp
  have b: "history_ok ?S" and b': "history_ok ?T"
    by (simp_all add: history_ok_def newChip8_def zeroChip8_def Let_def OpHistoryNum_def)
  have x: "op_x 0xF20A = 2" by (simp add: op_x_def op_nnn_def)
  have k0: "c_keys ?S = (\<lambda>_. 0)" by (simp add: newChip8_def zeroChip8_def Let_def)
  have k: "\<forall>k<16. c_keys ?S k \<noteq> 1" by (simp add: k0)
  have S: "c_pc ?S = 0x202" "c_v ?S = (\<lambda>_. 0)" and T: "c_pc ?T = 0x202" "c_v ?T = (\<lambda>_. 0)"
    by (simp_all add: newChip8_def zeroChip8_def Let_def)
  have t1: "(1::nat) < 16 \<and> c_keys ?T 1 = 1 \<and> (\<forall>j<1. c_keys ?T j \<noteq> 1)" by simp
  obtain c' where 1: "execOpcode 0 0xF20A ?S = Inr c'"
      "(\<forall>k<16. c_keys ?S k \<noteq> 1) \<longrightarrow> c_pc c' = c_pc ?S - 2 \<and> c_v c' = c_v ?S"
    using C6_block_for_key[OF a b, of 0] by blast
  obtain d' where 2: "execOpcode 0 0xF20A ?T = Inr d'"
      "\<forall>k<16. c_keys ?T k = 1 \<and> (\<forall>j<k. c_keys ?T j \<noteq> 1) \<longrightarrow>
            c_pc d' = c_pc ?T \<and> c_v d' = (c_v ?T)(unat (op_x 0xF20A) := of_nat k)"
    using C6_block_for_key[OF a b', of 0] by blast
  have "c_pc c' = 0x200 \<and> c_v c' 2 = 0" using 1(2) k S by simp
  moreover have "c_pc d' = 0x202 \<and> c_v d' 2 = 1" using 2(2)[rule_format, of 1] t1 T x by simp
  ultimately show ?thesis using a b b' k0 1(1) 2(1) by simp
qed

text \<open>
  C10.  Skip-if-key-pressed (EX9E) and skip-if-key-not-pressed (EXA1) index the 16 keys
  with the whole byte VX.  Whenever VX exceeds 15 the access is out of range and the
  instruction ends in the index panic; with VX at most 15 (and the trace position in
  range) the instruction returns.
\<close>

theorem C10_key_index_range:
  assumes "op AND 0xF0FF = 0xE09E \<or> op AND 0xF0FF = 0xE0A1"
  shows "(unat (get_v c (op_x op)) > 15 \<longrightarrow> execOpcode rnd op c = Inl IndexOutOfRange)
     \<and> (unat (get_v c (op_x op)) \<le> 15 \<and> history_ok c \<longrightarrow> (\<exists>c'. execOpcode rnd op c = Inr c'))"
proof -
  let ?x = "op_x op"
  have h: "op_h op = 0xE000" and nn: "op_nn op = 0x9E \<or> op_nn op = 0xA1"
    using assms mask_hn[of op "0xE09E"] mask_hn[of op "0xE0A1"] by auto
  have bad: "exec_case rnd op c = Inl IndexOutOfRange" if "unat (get_v c ?x) > 15"
    using that nn by (auto simp: exec_case_def exec_E_def h Let_def)
  have good: "\<exists>c1 m. exec_case rnd op c = Inr (c1, m) \<and> c_ophistoryIndex c1 = c_ophistoryIndex c"
    if "unat (get_v c ?x) \<le> 15"
    using that nn by (auto simp: exec_case_def exec_E_def h Let_def skip_if_def)
  have "\<exists>c'. execOpcode rnd op c = Inr c'" if le: "unat (get_v c ?x) \<le> 15" and ok: "history_ok c"
  proof -
    obtain c1 m where 1: "exec_case rnd op c = Inr (c1, m)" "c_ophistoryIndex c1 = c_ophistoryIndex c"
      using good[OF le] by blast
    then have "history_ok c1" using ok by (simp add: history_ok_def)
    then show ?thesis using execOpcode_Inr[OF 1(1)] by blast
  qed
  then show ?thesis using bad execOpcode_Inl by blast
qed

text \<open>Instances of C10: E09E with V0 = 16 panics; with V0 = 7, as in the test table, it returns.\<close>

theorem C10_witness:
  "((0xE09E :: uint16) AND 0xF0FF = 0xE09E \<or> (0xE09E :: uint16) AND 0xF0FF = 0xE0A1)
   \<and> unat (get_v ((newChip8 [0xE0, 0x9E])\<lparr>c_pc := 0x202, c_v := (\<lambda>_. 0)(0 := 16)\<rparr>) (op_x 0xE09E)) > 15
   \<and> execOpcode 0 0xE09E ((newChip8 [0xE0, 0x9E])\<lparr>c_pc := 0x202, c_v := (\<lambda>_. 0)(0 := 16)\<rparr>)
       = Inl IndexOutOfRange
   \<and> unat (get_v ((newChip8 [0xE0, 0x9E])\<lparr>c_pc := 0x202, c_v := (\<lambda>_. 0)(0 := 7)\<rparr>) (op_x 0xE09E)) \<le> 15
   \<and> history_ok ((newChip8 [0xE0, 0x9E])\<lparr>c_pc := 0x202, c_v := (\<lambda>_. 0)(0 := 7)\<rparr>)
   \<and> (\<exists>c'. execOpcode 0 0xE09E ((newChip8 [0xE0, 0x9E])\<lparr>c_pc := 0x202, c_v := (\<lambda>_. 0)(0 := 7)\<rparr>)
       = Inr c')"
proof -
  let ?S = "(newChip8 [0xE0, 0x9E])\<lparr>c_pc := 0x202, c_v := (\<lambda>_. 0)(0 := 16)\<rparr>"
  let ?T = "(newChip8 [0xE0, 0x9E])\<lparr>c_pc := 0x202, c_v := (\<lambda>_. 0)(0 := 7)\<rparr>"
  have a: "(0xE09E :: uint16) AND 0xF0FF = 0xE09E \<or> (0xE09E :: uint16) AND 0xF0FF = 0xE0A1" by simp
  have x: "op_x 0xE09E = 0" by (simp add: op_x_def op_nnn_def)
  have s: "unat (get_v ?S (op_x 0xE09E)) > 15" by (simp add: x get_v_def)
  have t: "unat (get_v ?T (op_x 0xE09E)) \<le> 15" by (simp add: x get_v_def)
  have b: "history_ok ?T"
    by (simp add: history_ok_def newChip8_def zeroChip8_def Let_def OpHistoryNum_def)
  show ?thesis
    using a s t b C10_key_index_range[OF a, of ?S 0] C10_key_index_range[OF a, of ?T 0]
    by blast
qed

section \<open>Register dump and load\<close>

text \<open>
  C9.  Let X be a register selector and let the index register satisfy I + X \<le> 4095.
  Register-dump (FX55) leaves the registers and I as they are and writes V0..VX to
  memory at I..I+X.  A register-load (FX65) with the same X that follows, either at once
  on the state the dump left, or on any later state whose index register I' (with
  I' + X \<le> 4095) points at memory holding the same X + 1 bytes, whatever its registers
  hold by then, gives V0..VX the values they had before the dump.
\<close>

theorem C9_dump_load_roundtrip:
  assumes "opd AND 0xF0FF = 0xF055" and "opl AND 0xF0FF = 0xF065" and "op_x opl = op_x opd"
    and "history_ok c" and "unat (c_i c) + unat (op_x opd) \<le> 4095"
  shows "\<exists>c1. execOpcode rnd opd c = Inr c1 \<and> c_v c1 = c_v c \<and> c_i c1 = c_i c
     \<and> (\<forall>k \<le> unat (op_x opd). c_mem c1 (unat (c_i c) + k) = c_v c k)
     \<and> (\<exists>c3. execOpcode rnd' opl c1 = Inr c3 \<and> (\<forall>k \<le> unat (op_x opd). c_v c3 k = c_v c k))
     \<and> (\<forall>c2. history_ok c2 \<and> unat (c_i c2) + unat (op_x opd) \<le> 4095
              \<and> (\<forall>k \<le> unat (op_x opd). c_mem c2 (unat (c_i c2) + k) = c_mem c1 (unat (c_i c) + k))
           \<longrightarrow> (\<exists>c3. execOpcode rnd' opl c2 = Inr c3
                      \<and> (\<forall>k \<le> unat (op_x opd). c_v c3 k = c_v c k)))"
proof -
  let ?x = "op_x opd"
  let ?c1 = "c\<lparr>c_mem := copy_slice (c_mem c) (unat (c_i c)) 4096 (c_v c) 0 (unat (?x + 1))\<rparr>"
  have hd: "op_h opd = 0xF000" and nd: "op_nn opd = 0x55"
    using mask_hn[OF assms(1)] by simp_all
  have hl: "op_h opl = 0xF000" and nl: "op_nn opl = 0x65"
    using mask_hn[OF assms(2)] by simp_all
  have "exec_case rnd opd c = Inr (?c1, ''LD   [I],V'' @ fmtX 0 (unat ?x))"
    using assms(5) by (simp add: exec_case_def exec_F_def hd nd Let_def)
  moreover have "history_ok ?c1" using assms(4) by (simp add: history_ok_def)
  ultimately obtain c1 where c1: "execOpcode rnd opd c = Inr c1" "c_v c1 = c_v c"
      "c_i c1 = c_i c" "c_mem c1 = c_mem ?c1" "history_ok c1"
    using execOpcode_Inr[of rnd opd c ?c1] by auto
  have dumped: "c_mem c1 (unat (c_i c) + k) = c_v c k" if "k \<le> unat ?x" for k
    using that assms(5) by (simp add: c1(4) copy_slice_def unat_op_x_Suc)
  have load: "\<exists>c3. execOpcode rnd' opl c2 = Inr c3 \<and> (\<forall>k \<le> unat ?x. c_v c3 k = c_v c k)"
    if ok: "history_ok c2" and inb: "unat (c_i c2) + unat ?x \<le> 4095"
      and same: "\<forall>k \<le> unat ?x. c_mem c2 (unat (c_i c2) + k) = c_mem c1 (unat (c_i c) + k)"
    for c2
  proof -
    let ?c3 = "c2\<lparr>c_v := copy_slice (c_v c2) 0 (unat (?x + 1)) (c_mem c2) (unat (c_i c2)) 4096\<rparr>"
    have "exec_case rnd' opl c2 = Inr (?c3, ''LD   V'' @ fmtX 0 (unat ?x) @ '',[I]'')"
      using inb by (simp add: exec_case_def exec_F_def hl nl assms(3) Let_def)
    moreover have "history_ok ?c3" using ok by (simp add: history_ok_def)
    ultimately obtain c3 where c3: "execOpcode rnd' opl c2 = Inr c3" "c_v c3 = c_v ?c3"
      using execOpcode_Inr[of rnd' opl c2 ?c3] by auto
    have "c_v c3 k = c_v c k" if "k \<le> unat ?x" for k
      using that inb same dumped by (simp add: c3(2) copy_slice_def unat_op_x_Suc)
    then show ?thesis using c3(1) by blast
  qed
  have "\<exists>c3. execOpcode rnd' opl c1 = Inr c3 \<and> (\<forall>k \<le> unat ?x. c_v c3 k = c_v c k)"
    using load[of c1] c1(3,5) assms(5) by simp
  then show ?thesis using c1(1,2,3) dumped load by blast
qed

text \<open>
  An instance of C9, after the dump case of the test table: V0..V3 = 1, 2, 3, 4 dumped at
  I = 12 by F355; the registers are then cleared, the four bytes are moved to 0x300 and
  I is set to 0x300, and F365 brings the four values back.
\<close>

theorem C9_witness:
  "(0xF355 :: uint16) AND 0xF0FF = 0xF055 \<and> (0xF365 :: uint16) AND 0xF0FF = 0xF065
   \<and> op_x 0xF365 = op_x 0xF355
   \<and> history_ok ((newChip8 [0xF3, 0x55])\<lparr>c_pc := 0x202, c_i := 12,
                      c_v := (\<lambda>_. 0)(0 := 1, 1 := 2, 2 := 3, 3 := 4)\<rparr>)
   \<and> (\<exists>c1. execOpcode 0 0xF355
               ((newChip8 [0xF3, 0x55])\<lparr>c_pc := 0x202, c_i := 12,
                      c_v := (\<lambda>_. 0)(0 := 1, 1 := 2, 2 := 3, 3 := 4)\<rparr>) = Inr c1
          \<and> c_mem c1 12 = 1 \<and> c_mem c1 15 = 4
          \<and> (\<exists>c3. execOpcode 0 0xF365
                      (c1\<lparr>c_i := 0x300, c_v := (\<lambda>_. 0),
                          c_mem := (\<lambda>a. if 0x300 \<le> a then c_mem c1 (12 + (a - 0x300)) else 0)\<rparr>) = Inr c3
                 \<and> c_v c3 0 = 1 \<and> c_v c3 1 = 2 \<and> c_v c3 2 = 3 \<and> c_v c3 3 = 4))"
proof -
  let ?S = "(newChip8 [0xF3, 0x55])\<lparr>c_pc := 0x202, c_i := 12,
                      c_v := (\<lambda>_. 0)(0 := 1, 1 := 2, 2 := 3, 3 := 4)\<rparr>"
  have a: "(0xF355 :: uint16) AND 0xF0FF = 0xF055" and a': "(0xF365 :: uint16) AND 0xF0FF = 0xF065"
    by simp_all
  have x: "op_x 0xF355 = 3" and x': "op_x 0xF365 = 3" by (simp_all add: op_x_def op_nnn_def)
  have e: "op_x 0xF365 = op_x 0xF355" by (simp add: x x')
  have b: "history_ok ?S"
    by (simp add: history_ok_def newChip8_def zeroChip8_def Let_def OpHistoryNum_def)
  have i: "unat (c_i ?S) + unat (op_x 0xF355) \<le> 4095" by (simp add: x)
  obtain c1 where c1: "execOpcode 0 0xF355 ?S = Inr c1"
      "\<forall>k \<le> unat (op_x 0xF355). c_mem c1 (unat (c_i ?S) + k) = c_v ?S k"
      "\<forall>c2. history_ok c2 \<and> unat (c_i c2) + unat (op_x 0xF355) \<le> 4095
              \<and> (\<forall>k \<le> unat (op_x 0xF355). c_mem c2 (unat (c_i c2) + k) = c_mem c1 (unat (c_i ?S) + k))
           \<longrightarrow> (\<exists>c3. execOpcode 0 0xF365 c2 = Inr c3
                      \<and> (\<forall>k \<le> unat (op_x 0xF355). c_v c3 k = c_v ?S k))"
      "history_ok c1"
    using C9_dump_load_roundtrip[OF a a' e b i, of 0 0] execOpcode_ok by blast
  let ?c2 = "c1\<lparr>c_i := 0x300, c_v := (\<lambda>_. 0),
                 c_mem := (\<lambda>a. if 0x300 \<le> a then c_mem c1 (12 + (a - 0x300)) else 0)\<rparr>"
  have "history_ok ?c2" using c1(4) by (simp add: history_ok_def)
  moreover have "unat (c_i ?c2) + unat (op_x 0xF355) \<le> 4095" by (simp add: x)
  moreover have "\<forall>k \<le> unat (op_x 0xF355). c_mem ?c2 (unat (c_i ?c2) + k) = c_mem c1 (unat (c_i ?S) + k)"
    by simp
  ultimately obtain c3 where c3: "execOpcode 0 0xF365 ?c2 = Inr c3"
      "\<forall>k \<le> unat (op_x 0xF355). c_v c3 k = c_v ?S k"
    using c1(3) by blast
  have "c_v c3 0 = 1 \<and> c_v c3 1 = 2 \<and> c_v c3 2 = 3 \<and> c_v c3 3 = 4"
    using c3(2)[rule_format, of 0] c3(2)[rule_format, of 1] c3(2)[rule_format, of 2]
      c3(2)[rule_format, of 3] by (simp add: x)
  moreover have "c_mem c1 12 = 1 \<and> c_mem c1 15 = 4"
    using c1(2)[rule_format, of 0] c1(2)[rule_format, of 3] by (simp add: x)
  ultimately show ?thesis using a a' e b c1(1) c3(1) by blast
qed

section \<open>Initializer\<close>

text \<open>
  C7.  For a program of at most 3584 bytes, \<open>newChip8\<close> yields the state whose program
  counter is 0x200 and whose stack pointer is 15; the 80 bytes of the character-sprite
  table are at addresses 0x100..0x14F, the program bytes are at 0x200 onward, every
  other memory cell is 0, and the registers, I, the timers, the stack, the keypad, the
  framebuffer and the trace are all zero.
\<close>

theorem C7_newChip8:
  assumes "length b \<le> 3584"
  shows "c_pc (newChip8 b) = 0x200 \<and> c_sp (newChip8 b) = 15
     \<and> length characterSprites = 80
     \<and> (\<forall>k<80. c_mem (newChip8 b) (0x100 + k) = characterSprites ! k)
     \<and> (\<forall>k<length b. c_mem (newChip8 b) (0x200 + k) = b ! k)
     \<and> (\<forall>a. \<not> (0x100 \<le> a \<and> a \<le> 0x14F) \<and> \<not> (0x200 \<le> a \<and> a < 0x200 + length b)
            \<longrightarrow> c_mem (newChip8 b) a = 0)
     \<and> c_v (newChip8 b) = (\<lambda>_. 0) \<and> c_i (newChip8 b) = 0
     \<and> c_dt (newChip8 b) = 0 \<and> c_st (newChip8 b) = 0
     \<and> c_stack (newChip8 b) = (\<lambda>_. 0) \<and> c_keys (newChip8 b) = (\<lambda>_. 0)
     \<and> c_disp (newChip8 b) = (\<lambda>_. 0)
     \<and> c_ophistory (newChip8 b) = (\<lambda>_. []) \<and> c_ophistoryIndex (newChip8 b) = 0"
proof -
  have mem: "c_mem (newChip8 b) =
      (\<lambda>a. if 0x100 \<le> a \<and> a - 0x100 < 80 then characterSprites ! (a - 0x100)
           else if 0x200 \<le> a \<and> a - 0x200 < min 3584 (length b) then b ! (a - 0x200) else 0)"
    by (auto simp: newChip8_def zeroChip8_def Let_def copy_slice_def ProgramOffset_def
        CharacterSpritesOffset_def length_characterSprites fun_eq_iff)
  have 1: "\<forall>k<80. c_mem (newChip8 b) (0x100 + k) = characterSprites ! k"
    by (simp add: mem)
  have 2: "\<forall>k<length b. c_mem (newChip8 b) (0x200 + k) = b ! k"
    using assms by (simp add: mem)
  have 3: "\<forall>a. \<not> (0x100 \<le> a \<and> a \<le> 0x14F) \<and> \<not> (0x200 \<le> a \<and> a < 0x200 + length b)
            \<longrightarrow> c_mem (newChip8 b) a = 0"
    by (auto simp: mem)
  have 4: "c_pc (newChip8 b) = 0x200 \<and> c_sp (newChip8 b) = 15
     \<and> c_v (newChip8 b) = (\<lambda>_. 0) \<and> c_i (newChip8 b) = 0
     \<and> c_dt (newChip8 b) = 0 \<and> c_st (newChip8 b) = 0
     \<and> c_stack (newChip8 b) = (\<lambda>_. 0) \<and> c_keys (newChip8 b) = (\<lambda>_. 0)
     \<and> c_disp (newChip8 b) = (\<lambda>_. 0)
     \<and> c_ophistory (newChip8 b) = (\<lambda>_. []) \<and> c_ophistoryIndex (newChip8 b) = 0"
    by (simp add: newChip8_def zeroChip8_def Let_def ProgramOffset_def)
  show ?thesis using 1 2 3 4 length_characterSprites by blast
qed

text \<open>An instance of C7: the six-byte program of the end-to-end scenario.\<close>

theorem C7_witness:
  "length [0x60, 0x05, 0xA2, 0x50, 0xD0, 0x05 :: uint8] \<le> 3584
   \<and> c_pc (newChip8 [0x60, 0x05, 0xA2, 0x50, 0xD0, 0x05]) = 0x200
   \<and> c_sp (newChip8 [0x60, 0x05, 0xA2, 0x50, 0xD0, 0x05]) = 15
   \<and> c_mem (newChip8 [0x60, 0x05, 0xA2, 0x50, 0xD0, 0x05]) 0x100 = 0xF0
   \<and> c_mem (newChip8 [0x60, 0x05, 0xA2, 0x50, 0xD0, 0x05]) 0x14F = 0x80
   \<and> c_mem (newChip8 [0x60, 0x05, 0xA2, 0x50, 0xD0, 0x05]) 0x205 = 0x05
   \<and> c_mem (newChip8 [0x60, 0x05, 0xA2, 0x50, 0xD0, 0x05]) 0x206 = 0
   \<and> c_mem (newChip8 [0x60, 0x05, 0xA2, 0x50, 0xD0, 0x05]) 0x150 = 0"
proof -
  let ?b = "[0x60, 0x05, 0xA2, 0x50, 0xD0, 0x05 :: uint8]"
  have l: "length ?b \<le> 3584" by simp
  note t = C7_newChip8[OF l]
  have s: "\<forall>k<80. c_mem (newChip8 ?b) (0x100 + k) = characterSprites ! k"
    and p: "\<forall>k<length ?b. c_mem (newChip8 ?b) (0x200 + k) = ?b ! k"
    and z: "\<forall>a. \<not> (0x100 \<le> a \<and> a \<le> 0x14F) \<and> \<not> (0x200 \<le> a \<and> a < 0x200 + length ?b)
            \<longrightarrow> c_mem (newChip8 ?b) a = 0"
    using t by blast+
  have "c_mem (newChip8 ?b) 0x100 = 0xF0" using s[rule_format, of 0] by (simp add: characterSprites_def)
  moreover have "c_mem (newChip8 ?b) 0x14F = 0x80"
    using s[rule_format, of 79] by (simp add: characterSprites_def)
  moreover have "c_mem (newChip8 ?b) 0x205 = 0x05" using p[rule_format, of 5] by simp
  moreover have "c_mem (newChip8 ?b) 0x206 = 0" using z[rule_format, of "0x206"] by simp
  moreover have "c_mem (newChip8 ?b) 0x150 = 0" using z[rule_format, of "0x150"] by simp
  ultimately show ?thesis using l t by blast
qed

section \<open>Unimplemented instructions and the outcomes of a step\<close>

text \<open>
  C1 (as amended).  Every opcode of family 0x0 other than 0x00E0 and 0x00EE is the fatal
  unimplemented-instruction condition, in every state, and the fatal condition arises for
  no other opcode.  An opcode of family 0x8, 0xE or 0xF whose sub-op bits match no listed
  operation is not fatal: the inner switches have no default case, the instruction
  returns, and the state is as before except for the trace record (its mnemonic empty)
  and the trace position.  A step ends in one of three ways: an instruction executed,
  the fatal error (exactly when the fetched opcode is one of the family-0x0 opcodes
  above), or a run-time panic on an index or slice bound out of range, as when the
  opcode is fetched with the program counter at 4095 or beyond.
\<close>

theorem C1_fatal_condition:
  "(op_h op = 0 \<and> op \<noteq> 0x00E0 \<and> op \<noteq> 0x00EE \<longrightarrow>
        execOpcode rnd op c = Inl (NotImplemented op))
   \<and> (execOpcode rnd op c = Inl (NotImplemented w) \<longrightarrow>
        w = op \<and> op_h op = 0 \<and> op \<noteq> 0x00E0 \<and> op \<noteq> 0x00EE)
   \<and> (unrecognized_subop op \<and> history_ok c \<longrightarrow>
        execOpcode rnd op c =
           Inr (c\<lparr>c_ophistory := (c_ophistory c)(nat (c_ophistoryIndex c) :=
                    fmtX 3 (unat (c_pc c - 2)) @ ''-'' @ fmtX 4 (unat op) @ '' ''),
                  c_ophistoryIndex := (c_ophistoryIndex c + 1) mod 16\<rparr>))
   \<and> (step rnd c = Inl (NotImplemented w) \<longleftrightarrow>
        (\<exists>c1. fetchOpcode c = Inr (w, c1)) \<and> op_h w = 0 \<and> w \<noteq> 0x00E0 \<and> w \<noteq> 0x00EE)
   \<and> (unat (c_pc c) \<ge> 4095 \<longrightarrow> step rnd c = Inl IndexOutOfRange)"
proof -
  have 1: "execOpcode rnd op c = Inl (NotImplemented op)"
    if "op_h op = 0 \<and> op \<noteq> 0x00E0 \<and> op \<noteq> 0x00EE"
    using that execOpcode_fatal[of rnd op c op] by simp
  have 2: "w = op \<and> op_h op = 0 \<and> op \<noteq> 0x00E0 \<and> op \<noteq> 0x00EE"
    if "execOpcode rnd op c = Inl (NotImplemented w)"
    using that execOpcode_fatal[of rnd op c w] by simp
  have 3: "execOpcode rnd op c =
           Inr (c\<lparr>c_ophistory := (c_ophistory c)(nat (c_ophistoryIndex c) :=
                    fmtX 3 (unat (c_pc c - 2)) @ ''-'' @ fmtX 4 (unat op) @ '' ''),
                  c_ophistoryIndex := (c_ophistoryIndex c + 1) mod 16\<rparr>)"
    if "unrecognized_subop op \<and> history_ok c"
    using that
    by (simp add: execOpcode_def exec_case_unrecognized put_history_ok OpHistoryNum_def)
  have 4: "step rnd c = Inl (NotImplemented w) \<longleftrightarrow>
        (\<exists>c1. fetchOpcode c = Inr (w, c1)) \<and> op_h w = 0 \<and> w \<noteq> 0x00E0 \<and> w \<noteq> 0x00EE"
  proof -
    have "fetchOpcode c \<noteq> Inl (NotImplemented w)" by (simp add: fetchOpcode_def)
    then show ?thesis by (auto simp: step_def execOpcode_fatal split: sum.splits)
  qed
  have 5: "step rnd c = Inl IndexOutOfRange" if "unat (c_pc c) \<ge> 4095"
    using fetch_panic[OF that] by (simp add: step_def)
  show ?thesis using 1 2 3 4 5 by blast
qed

text \<open>
  Instances of C1: 0x0123 is fatal; 0xE000 has no listed sub-op and returns with registers and
  program counter as they were; a fetch at 0xFFF panics.
\<close>

theorem C1_witness:
  "op_h 0x0123 = 0 \<and> (0x0123 :: uint16) \<noteq> 0x00E0 \<and> (0x0123 :: uint16) \<noteq> 0x00EE
   \<and> execOpcode 0 0x0123 ((newChip8 [0x01, 0x23])\<lparr>c_pc := 0x202\<rparr>) = Inl (NotImplemented 0x0123)
   \<and> unrecognized_subop 0xE000 \<and> history_ok ((newChip8 [0xE0, 0x00])\<lparr>c_pc := 0x202\<rparr>)
   \<and> (\<exists>c'. execOpcode 0 0xE000 ((newChip8 [0xE0, 0x00])\<lparr>c_pc := 0x202\<rparr>) = Inr c'
          \<and> c_v c' = (\<lambda>_. 0) \<and> c_pc c' = 0x202 \<and> c_ophistoryIndex c' = 1)
   \<and> unat (c_pc ((newChip8 [])\<lparr>c_pc := 0xFFF\<rparr>)) \<ge> 4095
   \<and> step 0 ((newChip8 [])\<lparr>c_pc := 0xFFF\<rparr>) = Inl IndexOutOfRange"
proof -
  let ?S = "(newChip8 [0x01, 0x23])\<lparr>c_pc := 0x202\<rparr>"
  let ?T = "(newChip8 [0xE0, 0x00])\<lparr>c_pc := 0x202\<rparr>"
  let ?U = "(newChip8 [])\<lparr>c_pc := 0xFFF\<rparr>"
  have a: "op_h 0x0123 = 0 \<and> (0x0123 :: uint16) \<noteq> 0x00E0 \<and> (0x0123 :: uint16) \<noteq> 0x00EE"
    by (simp add: op_h_def)
  have u: "unrecognized_subop 0xE000"
    by (simp add: unrecognized_subop_def op_h_def op_nn_def op_nnn_def)
  have b: "history_ok ?T"
    by (simp add: history_ok_def newChip8_def zeroChip8_def Let_def OpHistoryNum_def)
  have p: "unat (c_pc ?U) \<ge> 4095" by simp
  have 1: "execOpcode 0 0x0123 ?S = Inl (NotImplemented 0x0123)"
    using a C1_fatal_condition[of "0x0123" 0 ?S] by blast
  have 2: "\<exists>c'. execOpcode 0 0xE000 ?T = Inr c'
          \<and> c_v c' = (\<lambda>_. 0) \<and> c_pc c' = 0x202 \<and> c_ophistoryIndex c' = 1"
    using u b C1_fatal_condition[of "0xE000" 0 ?T]
    by (simp add: newChip8_def zeroChip8_def Let_def)
  have 3: "step 0 ?U = Inl IndexOutOfRange"
    using p C1_fatal_condition[of _ 0 ?U] by blast
  show ?thesis using a u b p 1 2 3 by blast
qed

text \<open>
  C1 as first stated fails: 0x8008 has no listed sub-op in family 0x8, and a step on it
  from a fresh machine is not
  fatal: it returns, with the program counter past the instruction.
\<close>

theorem C1_counterexample:
  "unrecognized_subop 0x8008
   \<and> \<not> isl (step 0 (newChip8 [0x80, 0x08]))
   \<and> c_pc (projr (step 0 (newChip8 [0x80, 0x08]))) = 0x202"
  by (simp add: run_defs unrecognized_subop_def)

section \<open>Draw\<close>

text \<open>
  C5.  Draw (DXYN) in a state where the N sprite rows at I lie within memory
  (I + N \<le> 4096) returns, and with (VX, VY) the position read before VF is written:
  every sprite bit (row < N, col < 8) whose pixel (VX + col, VY + row) is inside the
  64 x 32 grid is XORed into the framebuffer cell of that pixel; every other cell, among
  them the cells that a pixel outside the grid would reach by wrapping around, is left as
  it was; and VF is 1 if some written cell went from 1 to 0, and 0 otherwise.
\<close>

theorem C5_draw:
  assumes "op_h op = 0xD000" and "history_ok c" and "unat (c_i c) + unat (op_n op) \<le> 4096"
  shows "\<exists>c'. execOpcode rnd op c = Inr c' \<and> c_mem c' = c_mem c
     \<and> (\<forall>row < unat (op_n op). \<forall>col < 8.
           unat (get_v c (op_x op)) + col < 64 \<and> unat (get_v c (op_y op)) + row < 32 \<longrightarrow>
           c_disp c' ((unat (get_v c (op_y op)) + row) * 64 + (unat (get_v c (op_x op)) + col))
           = c_disp c ((unat (get_v c (op_y op)) + row) * 64 + (unat (get_v c (op_x op)) + col))
               XOR sprite_bit (c_mem c) (unat (c_i c)) row col)
     \<and> (\<forall>p. \<not> (\<exists>row < unat (op_n op). \<exists>col < 8.
                  unat (get_v c (op_x op)) + col < 64 \<and> unat (get_v c (op_y op)) + row < 32
                  \<and> p = (unat (get_v c (op_y op)) + row) * 64 + (unat (get_v c (op_x op)) + col))
            \<longrightarrow> c_disp c' p = c_disp c p)
     \<and> c_v c' 0xf =
         (if \<exists>row < unat (op_n op). \<exists>col < 8.
               unat (get_v c (op_x op)) + col < 64 \<and> unat (get_v c (op_y op)) + row < 32
               \<and> c_disp c ((unat (get_v c (op_y op)) + row) * 64 + (unat (get_v c (op_x op)) + col)) = 1
               \<and> c_disp c' ((unat (get_v c (op_y op)) + row) * 64 + (unat (get_v c (op_x op)) + col)) = 0
          then 1 else 0)"
proof -
  let ?x = "get_v c (op_x op)" and ?y = "get_v c (op_y op)" and ?n = "unat (op_n op)"
  let ?m = "c_mem c" and ?b = "unat (c_i c)" and ?d = "c_disp c"
  let ?D = "rows_disp ?x ?y ?m ?b ?n 0 ?d"
  let ?F = "rows_flip ?x ?y ?m ?b ?n 0 ?d"
  let ?cell = "\<lambda>row col. (unat ?y + row) * 64 + (unat ?x + col)"
  have rows: "draw_rows ?x ?y ?m ?b ?n 0 (?d, False) = Inr (?D, ?F)"
    using draw_rows_eq[OF assms(3), of ?x ?y ?m 0 "(?d, False)"] by simp
  have dr: "draw ?x ?y (op_n op) c = Inr (?F, c\<lparr>c_disp := ?D\<rparr>)"
    using assms(3) rows by (simp add: draw_def)
  let ?c1 = "updateCarryFlag ?F (c\<lparr>c_disp := ?D\<rparr>)"
  have "\<exists>mn. exec_case rnd op c = Inr (?c1, mn)"
    by (simp add: exec_case_def assms(1) Let_def dr)
  moreover have "history_ok ?c1"
    using assms(2) by (simp add: history_ok_def updateCarryFlag_def)
  ultimately obtain c' where c': "execOpcode rnd op c = Inr c'" "c_mem c' = c_mem ?c1"
      "c_disp c' = c_disp ?c1" "c_v c' = c_v ?c1"
    using execOpcode_Inr by blast
  have disp: "c_disp c' = ?D" using c'(3) by (simp add: updateCarryFlag_def)
  have vf: "c_v c' 0xf = (if ?F then 1 else 0)" using c'(4) by (simp add: updateCarryFlag_def)
  have A: "?D (?cell row col) = ?d (?cell row col) XOR sprite_bit ?m ?b row col"
    if "row < ?n" "col < 8" "unat ?x + col < 64 \<and> unat ?y + row < 32" for row col
  proof -
    have "?cell row col div 64 = unat ?y + row \<and> ?cell row col mod 64 = unat ?x + col"
      using cell_eq_iff[of "unat ?x + col" "?cell row col" "unat ?y + row"] that(3) by blast
    then show ?thesis using that unfolding rows_disp_def by simp
  qed
  have B: "?D p = ?d p"
    if "\<not> (\<exists>row < ?n. \<exists>col < 8. unat ?x + col < 64 \<and> unat ?y + row < 32 \<and> p = ?cell row col)"
    for p
  proof (rule ccontr)
    assume "?D p \<noteq> ?d p"
    then have h: "unat ?y \<le> p div 64" "p div 64 < unat ?y + ?n" "p div 64 < 32"
        "unat ?x \<le> p mod 64" "p mod 64 < unat ?x + 8"
      unfolding rows_disp_def by (auto split: if_splits)
    let ?row = "p div 64 - unat ?y" and ?col = "p mod 64 - unat ?x"
    have "?row < ?n" "?col < 8" "unat ?x + ?col < 64" "unat ?y + ?row < 32" using h by simp_all
    moreover have "p = ?cell ?row ?col" using h div_mult_mod_eq[of p 64] by simp
    ultimately show False using that by blast
  qed
  have C: "?F = (\<exists>row < ?n. \<exists>col < 8. unat ?x + col < 64 \<and> unat ?y + row < 32
                   \<and> ?d (?cell row col) = 1 \<and> c_disp c' (?cell row col) = 0)"
  proof -
    have "(?d (?cell row col) = 1 \<and> c_disp c' (?cell row col) = 0)
        = (?d (?cell row col) = 1 \<and> sprite_bit ?m ?b row col = 1)"
      if "row < ?n" "col < 8" "unat ?x + col < 64" "unat ?y + row < 32" for row col
      using A[of row col] that xor_bit_zero[of ?m ?b row col] by (auto simp: disp)
    then show ?thesis unfolding rows_flip_def by (metis (no_types, lifting) le0)
  qed
  show ?thesis using c'(1,2) A B C vf disp by (simp add: updateCarryFlag_def)
qed

text \<open>
  An instance of C5 with clipping: D128 with V1 = 60, V2 = 30, an all-ones sprite at I = 0 and a
  cleared framebuffer.  Pixel (60, 30) and pixel (63, 31) are lit; the cell of pixel
  (0, 31), where column 64 of line 30 would land by wrapping, stays 0; VF is 0.
\<close>

theorem C5_witness:
  "op_h 0xD128 = 0xD000
   \<and> history_ok ((newChip8 [0xD1, 0x28])\<lparr>c_pc := 0x202, c_mem := (\<lambda>_. 0xff),
                      c_v := (\<lambda>_. 0)(1 := 60, 2 := 30)\<rparr>)
   \<and> unat (c_i ((newChip8 [0xD1, 0x28])\<lparr>c_pc := 0x202, c_mem := (\<lambda>_. 0xff),
                      c_v := (\<lambda>_. 0)(1 := 60, 2 := 30)\<rparr>)) + unat (op_n 0xD128) \<le> 4096
   \<and> (\<exists>c'. execOpcode 0 0xD128
               ((newChip8 [0xD1, 0x28])\<lparr>c_pc := 0x202, c_mem := (\<lambda>_. 0xff),
                      c_v := (\<lambda>_. 0)(1 := 60, 2 := 30)\<rparr>) = Inr c'
          \<and> c_disp c' (30 * 64 + 60) = 1 \<and> c_disp c' (31 * 64 + 63) = 1
          \<and> c_disp c' (31 * 64 + 0) = 0 \<and> c_v c' 0xf = 0)"
proof -
  let ?S = "(newChip8 [0xD1, 0x28])\<lparr>c_pc := 0x202, c_mem := (\<lambda>_. 0xff),
                      c_v := (\<lambda>_. 0)(1 := 60, 2 := 30)\<rparr>"
  have a: "op_h 0xD128 = 0xD000" by (simp add: op_h_def)
  have b: "history_ok ?S"
    by (simp add: history_ok_def newChip8_def zeroChip8_def Let_def OpHistoryNum_def)
  have f: "op_x 0xD128 = 1" "op_y 0xD128 = 2" "op_n 0xD128 = 8"
    by (simp_all add: op_x_def op_y_def op_n_def op_nn_def op_nnn_def)
  have base: "unat (c_i ?S) = 0" by (simp add: newChip8_def zeroChip8_def Let_def)
  have n: "unat (op_n 0xD128) = 8" by (simp add: f)
  have i: "unat (c_i ?S) + unat (op_n 0xD128) \<le> 4096" using base n by simp
  have vx: "unat (get_v ?S (op_x 0xD128)) = 60" and vy: "unat (get_v ?S (op_y 0xD128)) = 30"
    by (simp_all add: f get_v_def)
  have d: "c_disp ?S = (\<lambda>_. 0)" and m: "c_mem ?S = (\<lambda>_. 0xff)"
    by (simp_all add: newChip8_def zeroChip8_def Let_def)
  note t = C5_draw[OF a b i, of 0, unfolded vx vy n base d m]
  obtain c' where c': "execOpcode 0 0xD128 ?S = Inr c'"
    and A: "\<forall>row<8. \<forall>col<8. 60 + col < 64 \<and> 30 + row < 32 \<longrightarrow>
           c_disp c' ((30 + row) * 64 + (60 + col)) = 0 XOR sprite_bit (\<lambda>_. 0xff) 0 row col"
    and B: "\<forall>p. \<not> (\<exists>row<8. \<exists>col<8. 60 + col < 64 \<and> 30 + row < 32
                  \<and> p = (30 + row) * 64 + (60 + col)) \<longrightarrow> c_disp c' p = 0"
    and C: "c_v c' 0xf = (if \<exists>row<8. \<exists>col<8. 60 + col < 64 \<and> 30 + row < 32
                  \<and> (0::uint8) = 1 \<and> c_disp c' ((30 + row) * 64 + (60 + col)) = 0 then 1 else 0)"
    using t by blast
  have C': "c_v c' 0xf = 0" using C by simp
  have 1: "c_disp c' (30 * 64 + 60) = 1" using A[rule_format, of 0 0] by (simp add: sprite_bit_def)
  have 2: "c_disp c' (31 * 64 + 63) = 1" using A[rule_format, of 1 3] by (simp add: sprite_bit_def)
  have "\<not> (\<exists>row < 8. \<exists>col < 8. 60 + col < 64 \<and> 30 + row < 32
                  \<and> (31 * 64 + 0 :: nat) = (30 + row) * 64 + (60 + col))"
    by auto arith
  then have 3: "c_disp c' (31 * 64 + 0) = 0" using B by blast
  show ?thesis using a b i c' 1 2 3 C' by blast
qed

end
